theory Spec2Isabelle
  imports Complex_Main "HOL-Library.Sublist"
begin

section \<open>Strings of the page script\<close>

text \<open>
  The scraper (\<^verbatim>\<open>app/api/scrape/route.ts\<close>) works on JavaScript strings. They are
  modelled as \<^typ>\<open>string\<close>, one \<^typ>\<open>char\<close> per UTF-16 code unit, restricted to the
  code units below 256 (ASCII and the Latin-1 supplement, which holds the cent sign
  U+00A2 the script looks for).
\<close>

definition toLowerCase_char :: "char \<Rightarrow> char" where
  \<comment> \<open>\<^verbatim>\<open>String.prototype.toLowerCase\<close> on one code unit below 256: A-Z and the
      Latin-1 capitals U+00C0..U+00DE (without the multiplication sign U+00D7) move up
      by 32, every other code unit is kept.\<close>
  "toLowerCase_char c =
     (let n = (of_char c :: nat)
      in if (65 \<le> n \<and> n \<le> 90) \<or> (192 \<le> n \<and> n \<le> 222 \<and> n \<noteq> 215)
         then char_of (n + 32) else c)"

definition toLowerCase :: "string \<Rightarrow> string" where
  "toLowerCase s = map toLowerCase_char s"

definition split_first :: "char \<Rightarrow> string \<Rightarrow> string" where
  \<comment> \<open>\<^verbatim>\<open>s.split(c)[0]\<close> for a one-character separator: the text before the first
      occurrence of the separator, the whole string when there is none.\<close>
  "split_first c s = takeWhile (\<lambda>x. x \<noteq> c) s"

definition strip_trailing_slash :: "string \<Rightarrow> string" where
  \<comment> \<open>\<^verbatim>\<open>s.replace(/\/$/, '')\<close>: without the \<^verbatim>\<open>m\<close> flag \<^verbatim>\<open>$\<close> is the end of the input,
      so one slash is removed, and only when it is the last character.\<close>
  "strip_trailing_slash s = (if s \<noteq> [] \<and> last s = CHR ''/'' then butlast s else s)"

section \<open>Position records and deduplication\<close>

record Position =
  marketName :: string
  marketUrl :: string
  outcome :: string
  avgPrice :: string
  "value" :: string

definition normalizedUrl :: "string \<Rightarrow> string" where
  \<comment> \<open>route.ts line 486:
      \<^verbatim>\<open>pos.marketUrl.split('?')[0].split('#')[0].toLowerCase().replace(/\/$/, '')\<close>\<close>
  "normalizedUrl u =
     strip_trailing_slash (toLowerCase (split_first (CHR ''#'') (split_first (CHR ''?'') u)))"

fun dedup_loop :: "string set \<Rightarrow> Position list \<Rightarrow> Position list \<Rightarrow> Position list" where
  \<comment> \<open>The \<^verbatim>\<open>for (const pos of results)\<close> loop of lines 485-491; the arguments are
      \<^verbatim>\<open>seenUrls\<close>, \<^verbatim>\<open>uniqueResults\<close> and the part of \<^verbatim>\<open>results\<close> still to visit.\<close>
  "dedup_loop seenUrls uniqueResults [] = uniqueResults"
| "dedup_loop seenUrls uniqueResults (pos # results) =
     (if normalizedUrl (marketUrl pos) \<notin> seenUrls
      then dedup_loop (insert (normalizedUrl (marketUrl pos)) seenUrls) (uniqueResults @ [pos]) results
      else dedup_loop seenUrls uniqueResults results)"

definition dedup :: "Position list \<Rightarrow> Position list" where
  \<comment> \<open>Lines 481-493: both accumulators start empty.\<close>
  "dedup results = dedup_loop {} [] results"

definition dedupKey :: "Position \<Rightarrow> string" where
  "dedupKey pos = normalizedUrl (marketUrl pos)"

definition first_indices :: "string set \<Rightarrow> Position list \<Rightarrow> nat list" where
  \<comment> \<open>The positions of a list whose key is outside \<open>S\<close> and differs from the key of
      every earlier position.\<close>
  "first_indices S rs =
     filter (\<lambda>i. dedupKey (rs ! i) \<notin> S \<and> (\<forall>j < i. dedupKey (rs ! j) \<noteq> dedupKey (rs ! i)))
       [0 ..< length rs]"

section \<open>The response of the route\<close>

datatype json =
  JString string
| JNumber nat
| JArray "json list"
| JObject "(string \<times> json) list"

record response =
  status :: nat
  body :: json

definition position_json :: "Position \<Rightarrow> json" where
  \<comment> \<open>The object literal of lines 454-460 as \<^verbatim>\<open>NextResponse.json\<close> serialises it: the
      keys of interface \<^verbatim>\<open>Position\<close> (lines 4-10) in insertion order.\<close>
  "position_json pos = JObject
     [(''marketName'', JString (marketName pos)),
      (''marketUrl'', JString (marketUrl pos)),
      (''outcome'', JString (outcome pos)),
      (''avgPrice'', JString (avgPrice pos)),
      (''value'', JString (value pos))]"


fun json_get :: "string \<Rightarrow> json \<Rightarrow> json option" where
  "json_get k (JObject kvs) = map_of kvs k"
| "json_get k _ = None"

definition respond :: "Position list \<Rightarrow> response" where
  \<comment> \<open>Lines 501-513: what the route answers once the page script has returned.\<close>
  "respond positions =
     (if length positions = 0
      then \<lparr>status = 200,
            body = JObject
              [(''error'', JString ''No positions found''),
               (''message'', JString
                  ''The page may not have loaded correctly or the profile has no positions. Make sure the URL includes ?tab=positions''),
               (''positions'', JArray []),
               (''count'', JNumber 0)]\<rparr>
      else \<lparr>status = 200,
            body = JObject
              [(''positions'', JArray (map position_json positions)),
               (''count'', JNumber (length positions))]\<rparr>)"

record scrape_error =
  message :: string
  stack :: "string option"

definition scraping_failed :: "scrape_error \<Rightarrow> response" where
  \<comment> \<open>The \<^verbatim>\<open>catch\<close> of lines 514-533. \<^verbatim>\<open>stack\<close> is what the \<^verbatim>\<open>details\<close> expression
      evaluates to: the stack trace in development, \<^verbatim>\<open>undefined\<close> (a key that JSON
      drops) otherwise.\<close>
  "scraping_failed e =
     \<lparr>status = 500,
      body = JObject
        ([(''error'', JString ''Scraping failed''),
          (''message'', JString (if message e \<noteq> [] then message e else ''Unknown error occurred''))]
         @ (case stack e of None \<Rightarrow> [] | Some st \<Rightarrow> [(''details'', JString st)]))\<rparr>"

definition GET :: "(string \<Rightarrow> bool) \<Rightarrow> (string \<Rightarrow> scrape_error + Position list) \<Rightarrow> string option \<Rightarrow> response" where
  \<comment> \<open>The handler of lines 15-534 around the browser session. \<open>validUrl\<close> says whether
      \<^verbatim>\<open>new URL(profileUrl)\<close> succeeds; \<open>scrape\<close> is the browser session of lines 37-496:
      it throws, or returns the list the page script computed.\<close>
  "GET validUrl scrape profileUrl =
     (case profileUrl of
        None \<Rightarrow> \<lparr>status = 400, body = JObject [(''error'', JString ''profileUrl parameter is required'')]\<rparr>
      | Some u \<Rightarrow>
          if u = [] then \<lparr>status = 400, body = JObject [(''error'', JString ''profileUrl parameter is required'')]\<rparr>
          else if \<not> validUrl u then \<lparr>status = 400, body = JObject [(''error'', JString ''Invalid URL format'')]\<rparr>
          else (case scrape u of
                  Inl e \<Rightarrow> scraping_failed e
                | Inr positions \<Rightarrow> respond positions))"

section \<open>The scroll loop\<close>

record scroll_state =
  lastHeight :: nat
  lastLinkCount :: nat
  scrollCount :: nat
  stableCount :: nat

definition maxScrolls :: nat where
  "maxScrolls = 50"

definition scroll_init :: scroll_state where
  \<comment> \<open>Lines 125-128.\<close>
  "scroll_init = \<lparr>lastHeight = 0, lastLinkCount = 0, scrollCount = 0, stableCount = 0\<rparr>"

definition scroll_body :: "nat \<times> nat \<Rightarrow> scroll_state \<Rightarrow> scroll_state" where
  \<comment> \<open>One pass through the body of the \<^verbatim>\<open>while\<close> (lines 135-151); the pair is
      \<^verbatim>\<open>document.body.scrollHeight\<close> and \<^verbatim>\<open>countMarketLinks()\<close> as read in that pass.\<close>
  "scroll_body sample s =
     (let currentHeight = fst sample; currentLinkCount = snd sample
      in \<lparr>lastHeight = currentHeight,
          lastLinkCount = currentLinkCount,
          scrollCount = scrollCount s + 1,
          stableCount =
            (if currentHeight = lastHeight s \<and> currentLinkCount = lastLinkCount s
             then stableCount s + 1 else 0)\<rparr>)"

function scroll_loop :: "(nat \<Rightarrow> nat \<times> nat) \<Rightarrow> scroll_state \<Rightarrow> scroll_state" where
  \<comment> \<open>The \<^verbatim>\<open>while\<close> of line 134. \<open>samples i\<close> is what the page shows in pass \<open>i\<close>
      (counted from 0); the page decides it, so it is any function.\<close>
  "scroll_loop samples s =
     (if scrollCount s < maxScrolls \<and> stableCount s < 3
      then scroll_loop samples (scroll_body (samples (scrollCount s)) s)
      else s)"
  by pat_completeness auto
termination
  by (relation "measure (\<lambda>(samples, s). maxScrolls - scrollCount s)")
     (auto simp: scroll_body_def Let_def)

declare scroll_loop.simps [simp del]

primrec scroll_iter :: "(nat \<Rightarrow> nat \<times> nat) \<Rightarrow> nat \<Rightarrow> scroll_state" where
  \<comment> \<open>The state after \<open>n\<close> passes through the body.\<close>
  "scroll_iter samples 0 = scroll_init"
| "scroll_iter samples (Suc n) = scroll_body (samples n) (scroll_iter samples n)"

section \<open>Regular expressions of the page script\<close>

text \<open>
  Every regular expression of the script is a sequence of character classes, each with one
  of the quantifiers none, \<^verbatim>\<open>?\<close>, \<^verbatim>\<open>*\<close> or \<^verbatim>\<open>+\<close> (all greedy), with at most one capture
  group around consecutive items. The matcher below is the backtracking matcher of
  ECMAScript on this fragment: the leftmost start wins, and at each start a quantified
  item first takes as many characters as it can and gives them back one at a time.
\<close>

definition is_digit :: "char \<Rightarrow> bool" where
  \<comment> \<open>\<^verbatim>\<open>\d\<close>\<close>
  "is_digit c = (c \<in> set ''0123456789'')"

definition is_space :: "char \<Rightarrow> bool" where
  \<comment> \<open>\<^verbatim>\<open>\s\<close> on code units below 256: tab, line feed, vertical tab, form feed,
      carriage return, space and the no-break space U+00A0.\<close>
  "is_space c = (c \<in> {CHR 0x09, CHR 0x0A, CHR 0x0B, CHR 0x0C, CHR 0x0D, CHR 0x20, CHR 0xA0})"

definition cent :: char where
  \<comment> \<open>The cent sign U+00A2.\<close>
  "cent = CHR 0xA2"

definition is_digit_or_comma :: "char \<Rightarrow> bool" where
  \<comment> \<open>\<^verbatim>\<open>[\d,]\<close>\<close>
  "is_digit_or_comma c = (is_digit c \<or> c = CHR '','')"

definition is_colon_or_space :: "char \<Rightarrow> bool" where
  \<comment> \<open>\<^verbatim>\<open>[:\s]\<close>\<close>
  "is_colon_or_space c = (c = CHR '':'' \<or> is_space c)"

definition ci :: "char \<Rightarrow> char \<Rightarrow> bool" where
  \<comment> \<open>A lower-case ASCII letter of a pattern with the \<^verbatim>\<open>i\<close> flag: the letter in either
      case.\<close>
  "ci l c = (toLowerCase_char c = l)"

datatype quantifier = One | Opt | Star | Plus

type_synonym regex = "((char \<Rightarrow> bool) \<times> quantifier) list"

fun match_here :: "regex \<Rightarrow> string \<Rightarrow> nat list option"
  and give_back :: "regex \<Rightarrow> string \<Rightarrow> nat \<Rightarrow> nat \<Rightarrow> nat list option" where
  \<comment> \<open>\<open>match_here r s\<close> matches \<open>r\<close> at the start of \<open>s\<close> and returns the number of
      characters each item took. \<open>give_back r s lo k\<close> lets the current item take \<open>k\<close>
      characters, then \<open>k - 1\<close>, down to \<open>lo\<close>, until the rest of the pattern matches.\<close>
  "match_here [] s = Some []"
| "match_here ((p, One) # r) s =
     (case s of
        [] \<Rightarrow> None
      | c # cs \<Rightarrow> if p c then map_option (Cons 1) (match_here r cs) else None)"
| "match_here ((p, Opt) # r) s = give_back r s 0 (length (takeWhile p (take 1 s)))"
| "match_here ((p, Star) # r) s = give_back r s 0 (length (takeWhile p s))"
| "match_here ((p, Plus) # r) s = give_back r s 1 (length (takeWhile p s))"
| "give_back r s lo k =
     (if k < lo then None
      else case match_here r (drop k s) of
             Some ls \<Rightarrow> Some (k # ls)
           | None \<Rightarrow> if lo < k then give_back r s lo (k - 1) else None)"

fun search_from :: "regex \<Rightarrow> string \<Rightarrow> nat \<Rightarrow> (nat \<times> nat list) option" where
  \<comment> \<open>The leftmost start at which the pattern matches, counted from \<open>i\<close>.\<close>
  "search_from r [] i = map_option (Pair i) (match_here r [])"
| "search_from r (c # cs) i =
     (case match_here r (c # cs) of
        Some ls \<Rightarrow> Some (i, ls)
      | None \<Rightarrow> search_from r cs (Suc i))"

record regex_match =
  whole :: string
  group1 :: "string option"

definition exec :: "regex \<Rightarrow> (nat \<times> nat) option \<Rightarrow> string \<Rightarrow> regex_match option" where
  \<comment> \<open>\<^verbatim>\<open>s.match(r)\<close> for a pattern without the \<^verbatim>\<open>g\<close> flag: \<open>None\<close> is \<^verbatim>\<open>null\<close>,
      \<open>whole\<close> is \<^verbatim>\<open>match[0]\<close> and \<open>group1\<close> is \<^verbatim>\<open>match[1]\<close> (\<open>None\<close> for
      \<^verbatim>\<open>undefined\<close>, when the pattern has no group). The capture group is given by the
      index of its first item and its number of items.\<close>
  "exec r grp s =
     (case search_from r s 0 of
        None \<Rightarrow> None
      | Some (i, ls) \<Rightarrow>
          Some \<lparr>whole = take (sum_list ls) (drop i s),
                group1 = (case grp of
                            None \<Rightarrow> None
                          | Some (a, n) \<Rightarrow>
                              Some (take (sum_list (take n (drop a ls)))
                                      (drop (i + sum_list (take a ls)) s)))\<rparr>)"

definition test :: "regex \<Rightarrow> string \<Rightarrow> bool" where
  \<comment> \<open>\<^verbatim>\<open>r.test(s)\<close>\<close>
  "test r s = (search_from r s 0 \<noteq> None)"

definition replace_first :: "regex \<Rightarrow> string \<Rightarrow> string" where
  \<comment> \<open>\<^verbatim>\<open>s.replace(r, '')\<close> for a pattern without the \<^verbatim>\<open>g\<close> flag.\<close>
  "replace_first r s =
     (case search_from r s 0 of
        None \<Rightarrow> s
      | Some (i, ls) \<Rightarrow> take i s @ drop (i + sum_list ls) s)"

definition trim :: "string \<Rightarrow> string" where
  \<comment> \<open>\<^verbatim>\<open>String.prototype.trim\<close>: white space goes from both ends.\<close>
  "trim s = rev (dropWhile is_space (rev (dropWhile is_space s)))"

fun "includes" :: "string \<Rightarrow> string \<Rightarrow> bool" where
  \<comment> \<open>\<^verbatim>\<open>s.includes(sub)\<close>\<close>
  "includes [] sub = (sub = [])"
| "includes (c # cs) sub = (prefix sub (c # cs) \<or> includes cs sub)"

definition startsWith :: "string \<Rightarrow> string \<Rightarrow> bool" where
  "startsWith s p = prefix p s"

definition lit :: "string \<Rightarrow> regex" where
  \<comment> \<open>Literal characters of a pattern without the \<^verbatim>\<open>i\<close> flag.\<close>
  "lit s = map (\<lambda>c. ((=) c, One)) s"

definition lit_ci :: "string \<Rightarrow> regex" where
  \<comment> \<open>Lower-case letters of a pattern with the \<^verbatim>\<open>i\<close> flag.\<close>
  "lit_ci s = map (\<lambda>c. (ci c, One)) s"

definition number_items :: regex where
  \<comment> \<open>\<^verbatim>\<open>\d+\.?\d*\<close>\<close>
  "number_items = [(is_digit, Plus), ((=) CHR ''.'', Opt), (is_digit, Star)]"

definition amount_items :: regex where
  \<comment> \<open>\<^verbatim>\<open>[\d,]+\.?\d*\<close>\<close>
  "amount_items = [(is_digit_or_comma, Plus), ((=) CHR ''.'', Opt), (is_digit, Star)]"

definition cents_re :: regex where
  \<comment> \<open>\<^verbatim>\<open>/(\d+\.?\d*)\s*\<cent>/\<close> (lines 298, 310, 316), group at items 0-2.\<close>
  "cents_re = number_items @ [(is_space, Star), ((=) cent, One)]"

definition at_re :: regex where
  \<comment> \<open>\<^verbatim>\<open>/at\s+(\d+\.?\d*)\s*\<cent>/i\<close>, group at items 3-5.\<close>
  "at_re = lit_ci ''at'' @ [(is_space, Plus)] @ cents_re"

definition avg_re :: regex where
  \<comment> \<open>\<^verbatim>\<open>/avg[:\s]+(\d+\.?\d*)\s*\<cent>/i\<close>, group at items 4-6.\<close>
  "avg_re = lit_ci ''avg'' @ [(is_colon_or_space, Plus)] @ cents_re"

definition average_re :: regex where
  \<comment> \<open>\<^verbatim>\<open>/average[:\s]+(\d+\.?\d*)\s*\<cent>/i\<close>, group at items 8-10.\<close>
  "average_re = lit_ci ''average'' @ [(is_colon_or_space, Plus)] @ cents_re"

definition dollar_re :: regex where
  \<comment> \<open>\<^verbatim>\<open>/\$[\d,]+\.?\d*/\<close>\<close>
  "dollar_re = lit ''$'' @ amount_items"

definition dollar_test_re :: regex where
  \<comment> \<open>\<^verbatim>\<open>/\$[\d,]+/\<close> (line 382)\<close>
  "dollar_test_re = lit ''$'' @ [(is_digit_or_comma, Plus)]"

definition label_re :: "string \<Rightarrow> regex" where
  \<comment> \<open>\<^verbatim>\<open>/label[:\s]+/i\<close> (line 417)\<close>
  "label_re l = lit_ci l @ [(is_colon_or_space, Plus)]"

definition labelled_amount_re :: "string \<Rightarrow> regex" where
  \<comment> \<open>\<^verbatim>\<open>/label[:\s]+\$?([\d,]+\.?\d*)/i\<close> (lines 405-408), group at the last three
      items.\<close>
  "labelled_amount_re l = label_re l @ [((=) CHR ''$'', Opt)] @ amount_items"

section \<open>Numbers of the page script\<close>

text \<open>
  A JavaScript number is an IEEE 754 double. The outcome calculation only meets numbers
  without a sign (they are read from digits, and divided), so the model has NaN, positive
  infinity and the finite doubles \<open>m * 2 ^ e\<close> that are not negative. A finite double is
  kept in its one canonical form: \<open>e = -1074\<close> and \<open>m < 2 ^ 52\<close> (zero and the subnormal
  numbers), or \<open>2 ^ 52 \<le> m < 2 ^ 53\<close> and \<open>-1074 \<le> e \<le> 971\<close>.
\<close>

datatype number = NaN | Infinity | Finite nat int

fun bit_length :: "nat \<Rightarrow> nat" where
  "bit_length n = (if n = 0 then 0 else Suc (bit_length (n div 2)))"

declare bit_length.simps [simp del]

definition floor_log2 :: "nat \<Rightarrow> nat \<Rightarrow> int" where
  \<comment> \<open>The integer \<open>e\<close> with \<open>2 ^ e \<le> a / b < 2 ^ (e + 1)\<close>, for positive \<open>a\<close> and \<open>b\<close>.\<close>
  "floor_log2 a b =
     (let e0 = int (bit_length a) - int (bit_length b)
      in if (if 0 \<le> e0 then b * 2 ^ nat e0 \<le> a else b \<le> a * 2 ^ nat (- e0))
         then e0 else e0 - 1)"

definition round_half_even :: "nat \<Rightarrow> nat \<Rightarrow> nat" where
  \<comment> \<open>The integer nearest to \<open>a / b\<close>, the even one of two nearest.\<close>
  "round_half_even a b =
     (let q = a div b; r = a mod b
      in if 2 * r < b then q
         else if b < 2 * r then q + 1
         else if even q then q else q + 1)"

definition nearest_double :: "nat \<Rightarrow> nat \<Rightarrow> number" where
  \<comment> \<open>The double nearest to \<open>a / b\<close> (for \<open>b > 0\<close>) under round-to-nearest, ties to even:
      53 significant bits, least exponent -1074, overflow to infinity from \<open>2 ^ 1024\<close>.\<close>
  "nearest_double a b =
     (if a = 0 then Finite 0 (- 1074)
      else
        let e = max (floor_log2 a b) (- 1022);
            sh = e - 52;
            m = (if 0 \<le> sh then round_half_even a (b * 2 ^ nat sh)
                 else round_half_even (a * 2 ^ nat (- sh)) b)
        in if m = 2 ^ 53
           then (if 1023 \<le> e then Infinity else Finite (2 ^ 52) (sh + 1))
           else (if 1024 \<le> e then Infinity else Finite m sh))"

definition nat_of_digits :: "string \<Rightarrow> nat" where
  "nat_of_digits s = foldl (\<lambda>n c. 10 * n + (of_char c - 48)) 0 s"

definition parseFloat :: "string \<Rightarrow> number" where
  \<comment> \<open>\<^verbatim>\<open>parseFloat\<close> on the strings the script passes to it, which hold digits and at most
      one dot (they are captured by \<^verbatim>\<open>\d+\.?\d*\<close>, or by \<^verbatim>\<open>[\d,]+\.?\d*\<close> with the
      commas removed): the longest prefix \<^verbatim>\<open>digits[.digits]\<close> or \<^verbatim>\<open>.digits\<close> is read as a
      decimal numeral and rounded to the nearest double; without any digit the result is
      NaN.\<close>
  "parseFloat s =
     (let ip = takeWhile is_digit s;
          rest = dropWhile is_digit s;
          fp = (case rest of [] \<Rightarrow> [] | c # cs \<Rightarrow> if c = CHR ''.'' then takeWhile is_digit cs else [])
      in if ip = [] \<and> fp = [] then NaN
         else nearest_double (nat_of_digits (ip @ fp)) (10 ^ length fp))"

fun fdiv :: "number \<Rightarrow> number \<Rightarrow> number" where
  \<comment> \<open>The operator \<^verbatim>\<open>/\<close> on numbers without a sign.\<close>
  "fdiv NaN y = NaN"
| "fdiv x NaN = NaN"
| "fdiv Infinity Infinity = NaN"
| "fdiv Infinity (Finite m' e') = Infinity"
| "fdiv (Finite m e) Infinity = Finite 0 (- 1074)"
| "fdiv (Finite m e) (Finite m' e') =
     (if m' = 0 then (if m = 0 then NaN else Infinity)
      else if e' \<le> e then nearest_double (m * 2 ^ nat (e - e')) m'
      else nearest_double m (m' * 2 ^ nat (e' - e)))"

fun isNaN :: "number \<Rightarrow> bool" where
  "isNaN NaN = True"
| "isNaN _ = False"

fun gt_zero :: "number \<Rightarrow> bool" where
  \<comment> \<open>\<^verbatim>\<open>x > 0\<close>\<close>
  "gt_zero NaN = False"
| "gt_zero Infinity = True"
| "gt_zero (Finite m e) = (0 < m)"

fun dec :: "nat \<Rightarrow> string" where
  \<comment> \<open>The decimal digits of a natural number.\<close>
  "dec n = (if n < 10 then [char_of (48 + n)] else dec (n div 10) @ [char_of (48 + n mod 10)])"

declare dec.simps [simp del]

definition integer_value :: "nat \<Rightarrow> int \<Rightarrow> nat" where
  \<comment> \<open>\<open>m * 2 ^ e\<close> rounded down to an integer (from \<open>10 ^ 21\<close> on every double is an
      integer).\<close>
  "integer_value m e = (if 0 \<le> e then m * 2 ^ nat e else m div 2 ^ nat (- e))"

definition candidates :: "nat \<Rightarrow> nat \<Rightarrow> nat \<Rightarrow> (nat \<times> nat) list" where
  \<comment> \<open>For an integer \<open>N\<close> of \<open>nd\<close> decimal digits and a digit count \<open>k \<le> nd\<close>: the pairs
      \<open>(s, n)\<close> of a \<open>k\<close>-digit \<open>s\<close> and a magnitude \<open>n\<close> whose value \<open>s * 10 ^ (n - k)\<close> is \<open>N\<close>
      cut to \<open>k\<close> digits, or the next \<open>k\<close>-digit value above it; the one nearer to \<open>N\<close>
      first.\<close>
  "candidates N nd k =
     (let p = 10 ^ (nd - k);
          s0 = N div p;
          lower = (s0, nd);
          upper = (if s0 + 1 = 10 ^ k then (10 ^ (k - 1), nd + 1) else (s0 + 1, nd))
      in if N - s0 * p \<le> (s0 + 1) * p - N then [lower, upper] else [upper, lower])"

function shortest_digits :: "number \<Rightarrow> nat \<Rightarrow> nat \<Rightarrow> nat \<Rightarrow> nat \<times> nat \<times> nat" where
  \<comment> \<open>Step 5 of \<^verbatim>\<open>Number::toString\<close> for a double \<open>x\<close> with the integer value \<open>N\<close>: the
      least \<open>k\<close>, with \<open>s\<close> and \<open>n\<close>, such that \<open>s\<close> has \<open>k\<close> digits and \<open>s * 10 ^ (n - k)\<close>
      rounds to \<open>x\<close>. With \<open>k = nd\<close> the value is \<open>N\<close> itself.\<close>
  "shortest_digits x N nd k =
     (case filter (\<lambda>(s, n). nearest_double (s * 10 ^ (n - k)) 1 = x) (candidates N nd k) of
        (s, n) # _ \<Rightarrow> (k, s, n)
      | [] \<Rightarrow> if k < nd then shortest_digits x N nd (k + 1) else (nd, N, nd))"
  by pat_completeness auto
termination
  by (relation "measure (\<lambda>(x, N, nd, k). nd - k)") auto

declare shortest_digits.simps [simp del]

definition toString_large :: "nat \<Rightarrow> int \<Rightarrow> string" where
  \<comment> \<open>\<^verbatim>\<open>Number::toString\<close> for a finite \<open>x \<ge> 10 ^ 21\<close>: there \<open>n > 21\<close>, so the result is
      in exponent notation, the digits of \<open>s\<close> with a dot after the first when there are
      more, then \<^verbatim>\<open>e+\<close> and \<open>n - 1\<close>.\<close>
  "toString_large m e =
     (let N = integer_value m e;
          (k, s, n) = shortest_digits (Finite m e) N (length (dec N)) 1;
          ds = dec s
      in (if k = 1 then ds else take 1 ds @ ''.'' @ drop 1 ds) @ ''e+'' @ dec (n - 1))"

definition hundredths :: "nat \<Rightarrow> int \<Rightarrow> nat" where
  \<comment> \<open>The integer \<open>n\<close> for which \<open>n / 100 - m * 2 ^ e\<close> is nearest to zero, the larger of
      two such \<open>n\<close> (step 10.a of \<^verbatim>\<open>Number.prototype.toFixed\<close>).\<close>
  "hundredths m e =
     (if 0 \<le> e then 100 * m * 2 ^ nat e
      else (200 * m + 2 ^ nat (- e)) div (2 * 2 ^ nat (- e)))"

definition fixed2 :: "nat \<Rightarrow> string" where
  \<comment> \<open>Steps 10.b-10.c of \<^verbatim>\<open>toFixed\<close> for two fraction digits: the digits of \<open>n\<close>, filled
      with zeros on the left to three digits, with a dot before the last two.\<close>
  "fixed2 n =
     (let m0 = (if n = 0 then ''0'' else dec n);
          k = length m0;
          m1 = (if k \<le> 2 then replicate (2 + 1 - k) (CHR ''0'') @ m0 else m0);
          k1 = (if k \<le> 2 then 2 + 1 else k)
      in take (k1 - 2) m1 @ ''.'' @ drop (k1 - 2) m1)"

definition padded :: "nat \<Rightarrow> string" where
  \<comment> \<open>The digits of \<open>n\<close>, filled with zeros on the left to three digits.\<close>
  "padded n =
     (if length (dec n) \<le> 2 then replicate (3 - length (dec n)) (CHR ''0'') @ dec n else dec n)"

definition ge_1e21 :: "nat \<Rightarrow> int \<Rightarrow> bool" where
  "ge_1e21 m e = (if 0 \<le> e then 10 ^ 21 \<le> m * 2 ^ nat e else 10 ^ 21 * 2 ^ nat (- e) \<le> m)"

fun toFixed2 :: "number \<Rightarrow> string" where
  \<comment> \<open>\<^verbatim>\<open>x.toFixed(2)\<close>\<close>
  "toFixed2 NaN = ''NaN''"
| "toFixed2 Infinity = ''Infinity''"
| "toFixed2 (Finite m e) = (if ge_1e21 m e then toString_large m e else fixed2 (hundredths m e))"

section \<open>The derived metric\<close>

definition priceInCents :: "string \<Rightarrow> number" where
  \<comment> \<open>Lines 431-432.\<close>
  "priceInCents avgPriceValue =
     (case exec number_items (Some (0, 3)) avgPriceValue of
        Some priceMatch \<Rightarrow> (case group1 priceMatch of Some g \<Rightarrow> parseFloat g | None \<Rightarrow> NaN)
      | None \<Rightarrow> Finite 0 (- 1074))"

definition priceInDollars :: "string \<Rightarrow> number" where
  \<comment> \<open>Line 433.\<close>
  "priceInDollars avgPriceValue = fdiv (priceInCents avgPriceValue) (nearest_double 100 1)"

definition valueStr :: "string \<Rightarrow> string" where
  \<comment> \<open>Lines 436-437; \<open>val\<close> is the script's variable \<^verbatim>\<open>value\<close>.\<close>
  "valueStr val =
     (case exec amount_items (Some (0, 3)) val of
        Some valueMatch \<Rightarrow>
          (case group1 valueMatch of Some g \<Rightarrow> filter (\<lambda>c. c \<noteq> CHR '','') g | None \<Rightarrow> [])
      | None \<Rightarrow> ''0'')"

definition valueNum :: "string \<Rightarrow> number" where
  \<comment> \<open>Line 438.\<close>
  "valueNum val = parseFloat (valueStr val)"

definition calcOutcome :: "string \<Rightarrow> string \<Rightarrow> string" where
  \<comment> \<open>Lines 426-450. Nothing inside the \<^verbatim>\<open>try\<close> throws: \<^verbatim>\<open>match\<close>, \<^verbatim>\<open>parseFloat\<close>, the
      division and \<^verbatim>\<open>toFixed(2)\<close> are defined on all their arguments.\<close>
  "calcOutcome avgPriceValue val =
     (if avgPriceValue \<noteq> [] \<and> val \<noteq> []
      then
        if gt_zero (priceInDollars avgPriceValue) \<and> \<not> isNaN (valueNum val)
           \<and> \<not> isNaN (priceInDollars avgPriceValue)
        then toFixed2 (fdiv (valueNum val) (priceInDollars avgPriceValue))
        else []
      else [])"

definition number_value :: "nat \<Rightarrow> int \<Rightarrow> rat" where
  \<comment> \<open>The rational number \<open>m * 2 ^ e\<close> that \<open>Finite m e\<close> stands for.\<close>
  "number_value m e = (if 0 \<le> e then of_nat (m * 2 ^ nat e) else of_nat m / 2 ^ nat (- e))"

section \<open>Containers and field extraction\<close>

text \<open>
  The page script reads a container element through its tag name, its text and the
  elements below it. A container is a tree of text nodes and elements; the tag name is in
  upper case, as \<^verbatim>\<open>tagName\<close> gives it for HTML elements.
\<close>

datatype node = Text string | Element string "node list"

fun textContent :: "node \<Rightarrow> string" where
  "textContent (Text s) = s"
| "textContent (Element tag children) = concat (map textContent children)"

fun tagName :: "node \<Rightarrow> string" where
  "tagName (Text s) = []"
| "tagName (Element tag children) = tag"

fun descendants :: "node \<Rightarrow> (node \<times> node) list" where
  \<comment> \<open>The elements below a node in document order, each with its parent element.\<close>
  "descendants (Text s) = []"
| "descendants (Element tag children) =
     concat (map (\<lambda>c. case c of
                          Text s \<Rightarrow> []
                        | Element t cs \<Rightarrow> (c, Element tag children) # descendants c)
                 children)"

definition querySelectorAll :: "string list \<Rightarrow> node \<Rightarrow> (node \<times> node) list" where
  \<comment> \<open>\<^verbatim>\<open>container.querySelectorAll('t1, t2, ...')\<close> for a list of tag names.\<close>
  "querySelectorAll tags container =
     filter (\<lambda>(el, parent). tagName el \<in> set tags) (descendants container)"

record anchor =
  innerText :: string
  linkText :: string
  href :: string
  hrefAttribute :: "string option"

text \<open>
  An anchor is read through \<^verbatim>\<open>innerText\<close>, \<^verbatim>\<open>textContent\<close> (\<open>linkText\<close>), the
  property \<^verbatim>\<open>href\<close> and \<^verbatim>\<open>getAttribute('href')\<close> (\<open>None\<close> for \<^verbatim>\<open>null\<close>).
\<close>

fun first_group :: "(regex \<times> nat \<times> nat) list \<Rightarrow> string \<Rightarrow> string option" where
  \<comment> \<open>The loops of lines 280-286 and 342-348: the first pattern of the list that
      matches with a non-empty \<^verbatim>\<open>match[1]\<close> gives that group.\<close>
  "first_group [] s = None"
| "first_group ((r, g) # patterns) s =
     (case exec r (Some g) s of
        None \<Rightarrow> first_group patterns s
      | Some m \<Rightarrow>
          (case group1 m of
             None \<Rightarrow> first_group patterns s
           | Some g1 \<Rightarrow> if g1 \<noteq> [] then Some g1 else first_group patterns s))"

definition avgPrice_early :: "string \<Rightarrow> string" where
  \<comment> \<open>Lines 274-286: the variable \<^verbatim>\<open>avgPrice\<close>.\<close>
  "avgPrice_early containerText =
     (case first_group [(at_re, 3, 3), (avg_re, 4, 3), (average_re, 8, 3)] containerText of
        None \<Rightarrow> []
      | Some g \<Rightarrow> g)"

fun price_cells :: "string list \<Rightarrow> string" where
  \<comment> \<open>The loop of lines 293-304 over the text of the cells.\<close>
  "price_cells [] = []"
| "price_cells (cellText # cells) =
     (let cellLower = toLowerCase cellText
      in if includes cellLower ''avg'' \<or> includes cellLower ''average'' \<or> includes cellLower ''at''
         then (case exec cents_re (Some (0, 3)) cellText of
                 Some priceMatch \<Rightarrow> whole priceMatch
               | None \<Rightarrow> price_cells cells)
         else price_cells cells)"

definition cells_of :: "node \<Rightarrow> string list" where
  \<comment> \<open>Lines 270-271, with the \<^verbatim>\<open>textContent\<close> of each cell.\<close>
  "cells_of container =
     (if tagName container = ''TR''
      then map (\<lambda>(el, parent). textContent el) (querySelectorAll [''TD'', ''TH''] container)
      else [])"

definition price_strategy0 :: "node \<Rightarrow> string" where
  \<comment> \<open>Lines 291-305.\<close>
  "price_strategy0 container =
     (if tagName container = ''TR'' \<and> cells_of container \<noteq> []
      then price_cells (cells_of container) else [])"

definition isAvg :: "string \<Rightarrow> bool" where
  \<comment> \<open>Lines 323-325.\<close>
  "isAvg context = (test at_re context \<or> test avg_re context \<or> test average_re context)"

fun price_elements :: "(string \<times> string) list \<Rightarrow> string \<Rightarrow> string" where
  \<comment> \<open>The loop of lines 314-332 over the price elements, each given by its text and
      the text of its parent; the last argument is \<^verbatim>\<open>avgPriceValue\<close> before the loop.\<close>
  "price_elements [] avgPriceValue = avgPriceValue"
| "price_elements ((text, parentText) # els) avgPriceValue =
     (case exec cents_re (Some (0, 3)) text of
        None \<Rightarrow> price_elements els avgPriceValue
      | Some priceMatch \<Rightarrow>
          if isAvg (toLowerCase (text @ '' '' @ parentText)) then whole priceMatch
          else price_elements els avgPriceValue)"

definition priceElements :: "node \<Rightarrow> (string \<times> string) list" where
  \<comment> \<open>Lines 308-311.\<close>
  "priceElements container =
     filter (\<lambda>(text, parentText). test cents_re text)
       (map (\<lambda>(el, parent). (textContent el, textContent parent))
          (querySelectorAll [''SPAN'', ''DIV'', ''P'', ''TD'', ''TH''] container))"

definition price_strategy3 :: "string \<Rightarrow> string \<Rightarrow> string" where
  \<comment> \<open>Lines 334-349.\<close>
  "price_strategy3 containerText avgPriceValue =
     (if avgPriceValue = []
      then (case first_group [(avg_re, 4, 3), (average_re, 8, 3), (at_re, 3, 3)] containerText of
              None \<Rightarrow> avgPriceValue
            | Some g \<Rightarrow> g @ [cent])
      else avgPriceValue)"

definition price_strategy4 :: "string \<Rightarrow> string \<Rightarrow> string" where
  \<comment> \<open>Lines 351-354; \<open>early\<close> is the script's variable \<^verbatim>\<open>avgPrice\<close>.\<close>
  "price_strategy4 early avgPriceValue =
     (if avgPriceValue = [] \<and> early \<noteq> [] then early @ [cent] else avgPriceValue)"

definition extract_avgPriceValue :: "node \<Rightarrow> string" where
  \<comment> \<open>Lines 273-354: the statements in the order of the script.\<close>
  "extract_avgPriceValue container =
     (let containerText = textContent container;
          early = avgPrice_early containerText;
          v0 = price_strategy0 container;
          v2 = price_elements (priceElements container) v0;
          v3 = price_strategy3 containerText v2
      in price_strategy4 early v3)"

definition has_value_context :: "string \<Rightarrow> bool" where
  \<comment> \<open>Lines 367-368 and 391.\<close>
  "has_value_context lower =
     (includes lower ''value'' \<or> includes lower ''pnl'' \<or> includes lower ''profit''
      \<or> includes lower ''loss'')"

fun value_cells :: "string list \<Rightarrow> string \<Rightarrow> string" where
  \<comment> \<open>The loop of lines 361-376; the last argument is \<^verbatim>\<open>value\<close> so far.\<close>
  "value_cells [] val = val"
| "value_cells (cellText # cells) val =
     (case exec dollar_re None cellText of
        None \<Rightarrow> value_cells cells val
      | Some valueMatch \<Rightarrow>
          if has_value_context (toLowerCase cellText) then whole valueMatch
          else if val = [] then value_cells cells (whole valueMatch)
          else value_cells cells val)"

definition value_strategy0 :: "node \<Rightarrow> string" where
  \<comment> \<open>Lines 359-377.\<close>
  "value_strategy0 container =
     (if tagName container = ''TR'' \<and> cells_of container \<noteq> []
      then value_cells (cells_of container) [] else [])"

fun value_elements :: "(string \<times> string) list \<Rightarrow> string \<Rightarrow> string" where
  \<comment> \<open>The loop of lines 385-399.\<close>
  "value_elements [] val = val"
| "value_elements ((text, parentText) # els) val =
     (case exec dollar_re None text of
        None \<Rightarrow> value_elements els val
      | Some valueMatch \<Rightarrow>
          if has_value_context (toLowerCase (if text \<noteq> [] then text else parentText))
          then whole valueMatch
          else if val = [] then value_elements els (whole valueMatch)
          else value_elements els val)"

definition valueElements :: "node \<Rightarrow> (string \<times> string) list" where
  \<comment> \<open>Lines 380-383.\<close>
  "valueElements container =
     filter (\<lambda>(text, parentText). test dollar_test_re text)
       (map (\<lambda>(el, parent). (textContent el, textContent parent))
          (querySelectorAll [''SPAN'', ''DIV'', ''P'', ''TD'', ''TH''] container))"

fun value_patterns :: "(regex \<times> (nat \<times> nat) option) list \<Rightarrow> string \<Rightarrow> string" where
  \<comment> \<open>The loop of lines 411-421: the first pattern that matches decides.\<close>
  "value_patterns [] containerText = []"
| "value_patterns ((r, g) # patterns) containerText =
     (case exec r g containerText of
        None \<Rightarrow> value_patterns patterns containerText
      | Some m \<Rightarrow>
          (case group1 m of
             Some g1 \<Rightarrow>
               if g1 \<noteq> [] then CHR ''$'' # g1
               else trim (replace_first (label_re ''loss'') (replace_first (label_re ''profit'')
                      (replace_first (label_re ''pnl'') (replace_first (label_re ''value'') (whole m)))))
           | None \<Rightarrow>
               trim (replace_first (label_re ''loss'') (replace_first (label_re ''profit'')
                 (replace_first (label_re ''pnl'') (replace_first (label_re ''value'') (whole m)))))))"

definition value_strategy2 :: "string \<Rightarrow> string \<Rightarrow> string" where
  \<comment> \<open>Lines 401-422.\<close>
  "value_strategy2 containerText val =
     (if val = []
      then value_patterns
             [(dollar_re, None),
              (labelled_amount_re ''value'', Some (7, 3)),
              (labelled_amount_re ''pnl'', Some (5, 3)),
              (labelled_amount_re ''profit'', Some (8, 3)),
              (labelled_amount_re ''loss'', Some (6, 3))]
             containerText
      else val)"

definition extract_value :: "node \<Rightarrow> string" where
  \<comment> \<open>Lines 356-422.\<close>
  "extract_value container =
     (let v0 = value_strategy0 container;
          v1 = value_elements (valueElements container) v0
      in value_strategy2 (textContent container) v1)"

definition resolve_marketUrl :: "anchor \<Rightarrow> string" where
  \<comment> \<open>Lines 253-261.\<close>
  "resolve_marketUrl link =
     (let marketUrl = (if href link \<noteq> [] then href link
                       else case hrefAttribute link of Some a \<Rightarrow> a | None \<Rightarrow> [])
      in if marketUrl \<noteq> [] \<and> \<not> startsWith marketUrl ''http''
         then (if startsWith marketUrl ''/'' then ''https://polymarket.com'' @ marketUrl
               else ''https://polymarket.com/'' @ marketUrl)
         else marketUrl)"

definition extract_position :: "anchor \<Rightarrow> node \<Rightarrow> Position option" where
  \<comment> \<open>Lines 251-474 for one market link and its container: \<open>None\<close> when the script
      returns at line 263 without a record.\<close>
  "extract_position link container =
     (let name = (if trim (innerText link) \<noteq> [] then trim (innerText link)
                  else trim (linkText link));
          url = resolve_marketUrl link
      in if url = [] then None
         else
           let avgPriceValue = extract_avgPriceValue container;
               val = extract_value container
           in Some \<lparr>marketName = (if name \<noteq> [] then name else ''Unknown Market''),
                     marketUrl = url,
                     outcome = calcOutcome avgPriceValue val,
                     avgPrice = avgPriceValue,
                     value = val\<rparr>)"

definition page_script :: "(anchor \<times> node option) list \<Rightarrow> Position list" where
  \<comment> \<open>Lines 173-494. The argument lists the market links in document order, each with
      the container that lines 201-247 resolve for it (\<open>None\<close> when there is none or the
      resolution throws, so that the link is skipped).\<close>
  "page_script marketLinks =
     dedup (List.map_filter
              (\<lambda>(link, container). case container of
                                       None \<Rightarrow> None
                                     | Some c \<Rightarrow> extract_position link c)
              marketLinks)"

definition two_decimals :: "string \<Rightarrow> bool" where
  \<comment> \<open>A numeral with exactly two decimal places: one digit or more, a dot, two digits.\<close>
  "two_decimals s =
     (let ip = takeWhile is_digit s; rest = dropWhile is_digit s
      in ip \<noteq> [] \<and> (case rest of
                        [c, d1, d2] \<Rightarrow> c = CHR ''.'' \<and> is_digit d1 \<and> is_digit d2
                      | _ \<Rightarrow> False))"

section \<open>The format of the extracted texts\<close>




text \<open>
  The texts that the patterns of the script match as a whole, as executable tests:
  \<open>number_text\<close> for \<^verbatim>\<open>\d+\.?\d*\<close>, \<open>cents_text\<close> for \<^verbatim>\<open>\d+\.?\d*\s*\<close> followed by the cent
  sign (lines 298 and 316), \<open>amount_text\<close> for \<^verbatim>\<open>[\d,]+\.?\d*\<close> and \<open>dollar_text\<close> for
  \<^verbatim>\<open>\$[\d,]+\.?\d*\<close> (lines 363, 387 and 404).
\<close>

definition number_text :: "string \<Rightarrow> bool" where
  \<comment> \<open>One digit or more, then nothing, or a dot and digits (none allowed).\<close>
  "number_text s =
     (let d = takeWhile is_digit s; r = dropWhile is_digit s
      in d \<noteq> [] \<and> (case r of [] \<Rightarrow> True | c # f \<Rightarrow> c = CHR ''.'' \<and> list_all is_digit f))"

definition cents_text :: "string \<Rightarrow> bool" where
  \<comment> \<open>A number, white space (none allowed) and the cent sign.\<close>
  "cents_text s =
     (s \<noteq> [] \<and> last s = cent \<and> number_text (rev (dropWhile is_space (rev (butlast s)))))"

definition amount_text :: "string \<Rightarrow> bool" where
  \<comment> \<open>One digit or comma or more, then nothing, or a dot and digits (none allowed).\<close>
  "amount_text s =
     (let d = takeWhile is_digit_or_comma s; r = dropWhile is_digit_or_comma s
      in d \<noteq> [] \<and> (case r of [] \<Rightarrow> True | c # f \<Rightarrow> c = CHR ''.'' \<and> list_all is_digit f))"

definition dollar_text :: "string \<Rightarrow> bool" where
  \<comment> \<open>The dollar sign and an amount.\<close>
  "dollar_text s = (case s of [] \<Rightarrow> False | c # r \<Rightarrow> c = CHR ''$'' \<and> amount_text r)"

section \<open>Deduplication: proofs\<close>

lemma first_indices_Cons:
  "first_indices S (r # rs) =
     (if dedupKey r \<in> S then map Suc (first_indices S rs)
      else 0 # map Suc (first_indices (insert (dedupKey r) S) rs))"
proof -
  have upt: "[0 ..< length (r # rs)] = 0 # map Suc [0 ..< length rs]"
    by (simp add: upt_conv_Cons map_Suc_upt del: upt_Suc)
  show ?thesis
    unfolding first_indices_def upt
    by (auto simp: filter_map comp_def All_less_Suc2 intro!: filter_cong)
qed

lemma dedup_loop_first_indices:
  "dedup_loop S acc rs = acc @ map (nth rs) (first_indices S rs)"
proof (induction rs arbitrary: S acc)
  case Nil
  show ?case by (simp add: first_indices_def)
next
  case (Cons r rs)
  show ?case
    by (simp add: Cons.IH first_indices_Cons dedupKey_def[symmetric] comp_def)
qed

lemma dedup_first_indices: "dedup rs = map (nth rs) (first_indices {} rs)"
  by (simp add: dedup_def dedup_loop_first_indices)

lemma distinct_first_indices: "distinct (first_indices S rs)"
  by (simp add: first_indices_def)

lemma dedup_keys_distinct: "distinct (map dedupKey (dedup rs))"
proof -
  have "inj_on (\<lambda>i. dedupKey (rs ! i)) (set (first_indices {} rs))"
  proof (rule inj_onI)
    fix i j assume i: "i \<in> set (first_indices {} rs)" and j: "j \<in> set (first_indices {} rs)"
      and eq: "dedupKey (rs ! i) = dedupKey (rs ! j)"
    show "i = j"
    proof (rule ccontr)
      assume "i \<noteq> j"
      then consider "i < j" | "j < i" by linarith
      then show False using i j eq by cases (auto simp: first_indices_def)
    qed
  qed
  then show ?thesis
    by (simp add: dedup_first_indices distinct_map distinct_first_indices comp_def)
qed

lemma sorted_first_indices: "sorted (first_indices S rs)"
  by (simp add: first_indices_def sorted_wrt_filter)

lemma dedup_loop_subseq:
  "\<exists>ys. dedup_loop S acc rs = acc @ ys \<and> subseq ys rs"
proof (induction rs arbitrary: S acc)
  case Nil
  show ?case by simp
next
  case (Cons r rs)
  show ?case
  proof (cases "normalizedUrl (marketUrl r) \<in> S")
    case True
    with Cons.IH [of S acc] show ?thesis by auto
  next
    case False
    from Cons.IH [of "insert (normalizedUrl (marketUrl r)) S" "acc @ [r]"]
    obtain ys where "dedup_loop (insert (normalizedUrl (marketUrl r)) S) (acc @ [r]) rs = (acc @ [r]) @ ys"
      and "subseq ys rs" by blast
    with False have "dedup_loop S acc (r # rs) = acc @ (r # ys) \<and> subseq (r # ys) (r # rs)"
      by simp
    then show ?thesis by blast
  qed
qed

lemma dedup_subseq: "subseq (dedup rs) rs"
  using dedup_loop_subseq [of "{}" "[]" rs] by (auto simp: dedup_def)

lemma toLowerCase_char_slash: "toLowerCase_char c = CHR ''/'' \<longleftrightarrow> c = CHR ''/''"
proof
  assume "c = CHR ''/''"
  then show "toLowerCase_char c = CHR ''/''" by (simp add: toLowerCase_char_def)
next
  assume a: "toLowerCase_char c = CHR ''/''"
  show "c = CHR ''/''"
  proof (cases "(65 \<le> (of_char c :: nat) \<and> (of_char c :: nat) \<le> 90) \<or>
      (192 \<le> (of_char c :: nat) \<and> (of_char c :: nat) \<le> 222 \<and> (of_char c :: nat) \<noteq> 215)")
    case False
    with a show ?thesis by (simp add: toLowerCase_char_def)
  next
    case True
    with a have "char_of ((of_char c :: nat) + 32) = CHR ''/''"
      by (simp add: toLowerCase_char_def)
    then have "((of_char c :: nat) + 32) mod 256 = 47"
      by (simp add: char_of_eq_iff take_bit_eq_mod)
    moreover from True have "(of_char c :: nat) + 32 < 256" by auto
    ultimately have "(of_char c :: nat) + 32 = 47" by simp
    with True have False by auto
    then show ?thesis ..
  qed
qed

lemma split_first_append_sep: "split_first c (u @ c # v) = split_first c u"
  by (induction u) (simp_all add: split_first_def)

lemma split_first_append_mem: "c \<in> set u \<Longrightarrow> split_first c (u @ v) = split_first c u"
  by (induction u) (auto simp: split_first_def)

lemma split_first_notin: "c \<notin> set u \<Longrightarrow> split_first c u = u"
  by (induction u) (auto simp: split_first_def)

lemma strip_toLowerCase_no_slash:
  "u = [] \<or> last u \<noteq> CHR ''/'' \<Longrightarrow> strip_trailing_slash (toLowerCase u) = toLowerCase u"
  by (auto simp: strip_trailing_slash_def toLowerCase_def last_map toLowerCase_char_slash)

lemma strip_toLowerCase_slash:
  "strip_trailing_slash (toLowerCase (u @ ''/'')) = toLowerCase u"
  by (simp add: strip_trailing_slash_def toLowerCase_def toLowerCase_char_def)

text \<open>
  Claim C4. The key used for deduplication (query string cut, fragment cut, lower case, one
  trailing slash removed) is a function of the URL alone, and for every base URL \<open>u\<close> that
  does not end in a slash the three URLs \<open>u + "?q=1"\<close>, \<open>u\<close> and \<open>u + "/"\<close> have the same
  key.
\<close>

theorem normalizedUrl_query_slash:
  assumes "u = [] \<or> last u \<noteq> CHR ''/''"
  shows "normalizedUrl (u @ ''?q=1'') = normalizedUrl u \<and> normalizedUrl u = normalizedUrl (u @ ''/'')"
proof
  show "normalizedUrl (u @ ''?q=1'') = normalizedUrl u"
    by (simp add: normalizedUrl_def split_first_append_sep)
  show "normalizedUrl u = normalizedUrl (u @ ''/'')"
  proof (cases "CHR ''?'' \<in> set u")
    case True
    then show ?thesis by (simp add: normalizedUrl_def split_first_append_mem)
  next
    case q: False
    show ?thesis
    proof (cases "CHR ''#'' \<in> set u")
      case True
      with q show ?thesis
        by (simp add: normalizedUrl_def split_first_notin split_first_append_mem)
    next
      case False
      with q assms show ?thesis
        by (simp add: normalizedUrl_def split_first_notin strip_toLowerCase_no_slash
            strip_toLowerCase_slash)
    qed
  qed
qed

theorem normalizedUrl_query_slash_witness:
  "normalizedUrl (''https://Polymarket.com/event/X'' @ ''?q=1'') = ''https://polymarket.com/event/x''
   \<and> normalizedUrl ''https://Polymarket.com/event/X'' = ''https://polymarket.com/event/x''
   \<and> normalizedUrl (''https://Polymarket.com/event/X'' @ ''/'') = ''https://polymarket.com/event/x''"
proof -
  have h: "''https://Polymarket.com/event/X'' = [] \<or> last ''https://Polymarket.com/event/X'' \<noteq> CHR ''/''"
    by simp
  have v: "normalizedUrl ''https://Polymarket.com/event/X'' = ''https://polymarket.com/event/x''"
    by code_simp
  from normalizedUrl_query_slash [OF h] v show ?thesis by simp
qed

text \<open>
  Claim C3. For every list of position records the deduplicated list has pairwise different
  keys, and it consists of exactly the records at the positions whose key has not occurred
  at any earlier position, in the order of these positions: the first record of each key
  is kept, in the original relative order. In particular two records whose URLs agree up
  to the query string give one record, the first.
\<close>

theorem dedup_first_occurrences:
  "distinct (map dedupKey (dedup rs))
   \<and> dedup rs =
       map (nth rs)
         (filter (\<lambda>i. \<forall>j < i. dedupKey (rs ! j) \<noteq> dedupKey (rs ! i)) [0 ..< length rs])
   \<and> (split_first (CHR ''?'') (marketUrl a) = split_first (CHR ''?'') (marketUrl b)
        \<longrightarrow> dedup [a, b] = [a])"
proof (intro conjI impI)
  show "distinct (map dedupKey (dedup rs))"
    by (rule dedup_keys_distinct)
  show "dedup rs =
       map (nth rs)
         (filter (\<lambda>i. \<forall>j < i. dedupKey (rs ! j) \<noteq> dedupKey (rs ! i)) [0 ..< length rs])"
    by (simp add: dedup_first_indices first_indices_def)
  assume "split_first (CHR ''?'') (marketUrl a) = split_first (CHR ''?'') (marketUrl b)"
  then have "normalizedUrl (marketUrl a) = normalizedUrl (marketUrl b)"
    by (simp add: normalizedUrl_def)
  then show "dedup [a, b] = [a]"
    by (simp add: dedup_def)
qed

theorem dedup_first_occurrences_witness:
  "dedup
     [\<lparr>marketName = ''A'', marketUrl = ''https://polymarket.com/event/a?tid=1'', outcome = ''200.00'', avgPrice = ''50c'', value = ''$100''\<rparr>,
      \<lparr>marketName = ''A again'', marketUrl = ''https://polymarket.com/event/a?tid=2'', outcome = '''', avgPrice = '''', value = ''''\<rparr>,
      \<lparr>marketName = ''B'', marketUrl = ''https://polymarket.com/event/b'', outcome = '''', avgPrice = '''', value = ''$7''\<rparr>]
   = [\<lparr>marketName = ''A'', marketUrl = ''https://polymarket.com/event/a?tid=1'', outcome = ''200.00'', avgPrice = ''50c'', value = ''$100''\<rparr>,
      \<lparr>marketName = ''B'', marketUrl = ''https://polymarket.com/event/b'', outcome = '''', avgPrice = '''', value = ''$7''\<rparr>]
   \<and> dedup
     [\<lparr>marketName = ''A'', marketUrl = ''https://polymarket.com/event/a?tid=1'', outcome = ''200.00'', avgPrice = ''50c'', value = ''$100''\<rparr>,
      \<lparr>marketName = ''A again'', marketUrl = ''https://polymarket.com/event/a?tid=2'', outcome = '''', avgPrice = '''', value = ''''\<rparr>]
   = [\<lparr>marketName = ''A'', marketUrl = ''https://polymarket.com/event/a?tid=1'', outcome = ''200.00'', avgPrice = ''50c'', value = ''$100''\<rparr>]"
proof -
  let ?a = "\<lparr>marketName = ''A'', marketUrl = ''https://polymarket.com/event/a?tid=1'', outcome = ''200.00'', avgPrice = ''50c'', value = ''$100''\<rparr>"
  let ?a' = "\<lparr>marketName = ''A again'', marketUrl = ''https://polymarket.com/event/a?tid=2'', outcome = '''', avgPrice = '''', value = ''''\<rparr>"
  let ?b = "\<lparr>marketName = ''B'', marketUrl = ''https://polymarket.com/event/b'', outcome = '''', avgPrice = '''', value = ''$7''\<rparr>"
  have ka: "dedupKey ?a = ''https://polymarket.com/event/a''" by code_simp
  have ka': "dedupKey ?a' = ''https://polymarket.com/event/a''" by code_simp
  have kb: "dedupKey ?b = ''https://polymarket.com/event/b''" by code_simp
  have q: "split_first (CHR ''?'') (marketUrl ?a) = split_first (CHR ''?'') (marketUrl ?a')"
    by (simp add: split_first_def)
  have idx: "[0 ..< length [?a, ?a', ?b]] = [0, 1, 2]"
    by (simp add: upt_rec)
  from dedup_first_occurrences [of "[?a, ?a', ?b]" ?a ?a'] q
  have "dedup [?a, ?a', ?b] =
          map (nth [?a, ?a', ?b])
            (filter (\<lambda>i. \<forall>j < i. dedupKey ([?a, ?a', ?b] ! j) \<noteq> dedupKey ([?a, ?a', ?b] ! i)) [0, 1, 2])"
    and two: "dedup [?a, ?a'] = [?a]"
    unfolding idx by blast+
  moreover have "filter (\<lambda>i. \<forall>j < i. dedupKey ([?a, ?a', ?b] ! j) \<noteq> dedupKey ([?a, ?a', ?b] ! i)) [0, 1, 2]
      = [0, 2]"
    using ka ka' kb by (simp add: All_less_Suc2 numeral_2_eq_2)
  ultimately show ?thesis by simp
qed

text \<open>
  Claim C10. Deduplication never changes a record: the output is a subsequence of the
  input, so every output record is an input record with all five fields as they were. The
  normalised URL is only the key of the comparison; the stored URL keeps its query string,
  fragment, trailing slash and letter case.
\<close>

theorem dedup_keeps_records:
  "subseq (dedup rs) rs \<and> (\<forall>p \<in> set (dedup rs). p \<in> set rs)"
proof
  show "subseq (dedup rs) rs" by (rule dedup_subseq)
  then show "\<forall>p \<in> set (dedup rs). p \<in> set rs"
    by (auto elim: list_emb_set)
qed

theorem dedup_keeps_records_witness:
  "dedup [\<lparr>marketName = ''Will X happen?'', marketUrl = ''HTTPS://Polymarket.com/Event/X/?tid=5#top'',
           outcome = ''120.50'', avgPrice = ''45c'', value = ''$5,423''\<rparr>]
   = [\<lparr>marketName = ''Will X happen?'', marketUrl = ''HTTPS://Polymarket.com/Event/X/?tid=5#top'',
           outcome = ''120.50'', avgPrice = ''45c'', value = ''$5,423''\<rparr>]
   \<and> dedupKey \<lparr>marketName = ''Will X happen?'', marketUrl = ''HTTPS://Polymarket.com/Event/X/?tid=5#top'',
           outcome = ''120.50'', avgPrice = ''45c'', value = ''$5,423''\<rparr>
     = ''https://polymarket.com/event/x''"
proof -
  let ?p = "\<lparr>marketName = ''Will X happen?'', marketUrl = ''HTTPS://Polymarket.com/Event/X/?tid=5#top'',
           outcome = ''120.50'', avgPrice = ''45c'', value = ''$5,423''\<rparr>"
  have k: "dedupKey ?p = ''https://polymarket.com/event/x''" by code_simp
  have n: "dedup [?p] \<noteq> []" by (simp add: dedup_def)
  from dedup_keeps_records [of "[?p]"] have "\<forall>p \<in> set (dedup [?p]). p = ?p" by simp
  moreover from dedup_keeps_records [of "[?p]"] have "length (dedup [?p]) \<le> 1"
    by (auto dest: list_emb_length)
  ultimately have "dedup [?p] = [?p]" using n
    by (cases "dedup [?p]") auto
  with k show ?thesis by simp
qed

section \<open>The response: proofs\<close>

lemma respond_Nil:
  "respond [] =
     \<lparr>status = 200,
      body = JObject
        [(''error'', JString ''No positions found''),
         (''message'', JString
            ''The page may not have loaded correctly or the profile has no positions. Make sure the URL includes ?tab=positions''),
         (''positions'', JArray []),
         (''count'', JNumber 0)]\<rparr>"
  by (simp add: respond_def)

text \<open>
  Claim C7. When the browser session ends with zero records, the route answers with status
  200 (not 500): the body has an empty \<open>positions\<close> array, \<open>count\<close> 0 and a message that
  is not empty. This is the answer of the handler for every accepted profile URL whose
  session returns the empty list, and the page script returns the empty list when the page
  has no market link.
\<close>

theorem empty_result_status_200:
  "status (respond []) = 200
   \<and> json_get ''positions'' (body (respond [])) = Some (JArray [])
   \<and> json_get ''count'' (body (respond [])) = Some (JNumber 0)
   \<and> (\<exists>m. json_get ''message'' (body (respond [])) = Some (JString m) \<and> m \<noteq> [])
   \<and> (u \<noteq> [] \<and> validUrl u \<and> scrape u = Inr [] \<longrightarrow>
        GET validUrl scrape (Some u) = respond [])
   \<and> page_script [] = []"
  by (simp add: respond_Nil GET_def page_script_def dedup_def List.map_filter_simps)

theorem empty_result_status_200_witness:
  "status (GET (\<lambda>u. True) (\<lambda>u. Inr []) (Some ''https://polymarket.com/profile/0xabc'')) = 200
   \<and> json_get ''count'' (body (GET (\<lambda>u. True) (\<lambda>u. Inr []) (Some ''https://polymarket.com/profile/0xabc'')))
       = Some (JNumber 0)"
  using empty_result_status_200 [of "''https://polymarket.com/profile/0xabc''" "\<lambda>u. True" "\<lambda>u. Inr []"]
  by simp

section \<open>The scroll loop: proofs\<close>

lemma scrollCount_scroll_iter: "scrollCount (scroll_iter samples n) = n"
  by (induction n) (simp_all add: scroll_init_def scroll_body_def Let_def)

lemma last_sample_scroll_iter:
  "lastHeight (scroll_iter samples (Suc n)) = fst (samples n) \<and>
   lastLinkCount (scroll_iter samples (Suc n)) = snd (samples n)"
  by (simp add: scroll_body_def Let_def)

lemma stableCount_scroll_iter_Suc:
  "stableCount (scroll_iter samples (Suc n)) =
     (if samples n = (lastHeight (scroll_iter samples n), lastLinkCount (scroll_iter samples n))
      then stableCount (scroll_iter samples n) + 1 else 0)"
  by (cases "samples n") (simp add: scroll_body_def Let_def)

lemma stableCount_scroll_iter_le:
  "stableCount (scroll_iter samples (Suc n)) \<le> stableCount (scroll_iter samples n) + 1"
  by (simp add: scroll_body_def Let_def)

lemma scroll_loop_unfold_iter:
  "scroll_loop samples (scroll_iter samples k) =
     (if k < maxScrolls \<and> stableCount (scroll_iter samples k) < 3
      then scroll_loop samples (scroll_iter samples (Suc k))
      else scroll_iter samples k)"
  by (subst scroll_loop.simps) (simp add: scrollCount_scroll_iter)

lemma scroll_loop_from_iter:
  assumes "k \<le> maxScrolls"
    and "\<forall>m < k. stableCount (scroll_iter samples m) < 3"
    and "stableCount (scroll_iter samples k) \<le> 3"
  shows "\<exists>n. k \<le> n \<and> n \<le> maxScrolls
           \<and> scroll_loop samples (scroll_iter samples k) = scroll_iter samples n
           \<and> (stableCount (scroll_iter samples n) = 3 \<or> n = maxScrolls)
           \<and> (\<forall>m < n. stableCount (scroll_iter samples m) < 3)"
  using assms
proof (induction "maxScrolls - k" arbitrary: k)
  case 0
  then have "k = maxScrolls" by simp
  with 0 show ?case
    by (subst scroll_loop_unfold_iter) auto
next
  case (Suc d)
  then have lt: "k < maxScrolls" by simp
  show ?case
  proof (cases "stableCount (scroll_iter samples k) < 3")
    case False
    with Suc.prems have "stableCount (scroll_iter samples k) = 3" by simp
    with Suc.prems show ?thesis
      by (subst scroll_loop_unfold_iter) auto
  next
    case True
    have d: "d = maxScrolls - Suc k" using Suc.hyps(2) by simp
    have a: "Suc k \<le> maxScrolls" using lt by simp
    have b: "\<forall>m < Suc k. stableCount (scroll_iter samples m) < 3"
      using Suc.prems(2) True by (auto simp: less_Suc_eq)
    have c: "stableCount (scroll_iter samples (Suc k)) \<le> 3"
      using stableCount_scroll_iter_le [of samples k] True by simp
    from Suc.hyps(1) [OF d a b c] obtain n where n: "Suc k \<le> n" "n \<le> maxScrolls"
      "scroll_loop samples (scroll_iter samples (Suc k)) = scroll_iter samples n"
      "stableCount (scroll_iter samples n) = 3 \<or> n = maxScrolls"
      "\<forall>m < n. stableCount (scroll_iter samples m) < 3"
      by blast
    have "scroll_loop samples (scroll_iter samples k) = scroll_iter samples n"
      using lt True n(3) by (subst scroll_loop_unfold_iter) simp
    with n show ?thesis by (intro exI [of _ n]) auto
  qed
qed

text \<open>
  Claim C9. For every sequence of samples (scrollable height, number of market links) the
  scroll loop terminates: it returns the state after some number \<open>n\<close> of passes, \<open>n\<close> at
  most the maximum of 50. In each pass the stability counter goes up by one when both
  signals equal those of the previous sample (the initial zeros before the first pass)
  and falls to zero otherwise, and the loop stops at the first \<open>n\<close> where the counter is 3
  or \<open>n\<close> is the maximum: the counter was below 3 after every earlier pass.
\<close>

theorem scroll_loop_stops:
  "\<exists>n. n \<le> maxScrolls
       \<and> scroll_loop samples scroll_init = scroll_iter samples n
       \<and> scrollCount (scroll_iter samples n) = n
       \<and> (stableCount (scroll_iter samples n) = 3 \<or> n = maxScrolls)
       \<and> (\<forall>m < n. stableCount (scroll_iter samples m) < 3
            \<and> stableCount (scroll_iter samples (Suc m)) =
                (if fst (samples m) = lastHeight (scroll_iter samples m)
                    \<and> snd (samples m) = lastLinkCount (scroll_iter samples m)
                 then stableCount (scroll_iter samples m) + 1 else 0)
            \<and> lastHeight (scroll_iter samples (Suc m)) = fst (samples m)
            \<and> lastLinkCount (scroll_iter samples (Suc m)) = snd (samples m))"
proof -
  have "\<exists>n. 0 \<le> n \<and> n \<le> maxScrolls
           \<and> scroll_loop samples (scroll_iter samples 0) = scroll_iter samples n
           \<and> (stableCount (scroll_iter samples n) = 3 \<or> n = maxScrolls)
           \<and> (\<forall>m < n. stableCount (scroll_iter samples m) < 3)"
    by (rule scroll_loop_from_iter) (simp_all add: scroll_init_def)
  then obtain n where n: "n \<le> maxScrolls"
      "scroll_loop samples scroll_init = scroll_iter samples n"
      "stableCount (scroll_iter samples n) = 3 \<or> n = maxScrolls"
      "\<forall>m < n. stableCount (scroll_iter samples m) < 3"
    by auto
  show ?thesis
    using n by (intro exI [of _ n]) (simp add: scrollCount_scroll_iter scroll_body_def Let_def)
qed

theorem scroll_loop_stops_witness:
  "scroll_loop (\<lambda>i. if i < 2 then (500 * (i + 1), 5 * i) else (1500, 12)) scroll_init
     = \<lparr>lastHeight = 1500, lastLinkCount = 12, scrollCount = 6, stableCount = 3\<rparr>
   \<and> scroll_iter (\<lambda>i. if i < 2 then (500 * (i + 1), 5 * i) else (1500, 12)) 6
     = \<lparr>lastHeight = 1500, lastLinkCount = 12, scrollCount = 6, stableCount = 3\<rparr>
   \<and> (\<exists>n \<le> maxScrolls.
        scroll_loop (\<lambda>i. if i < 2 then (500 * (i + 1), 5 * i) else (1500, 12)) scroll_init
          = scroll_iter (\<lambda>i. if i < 2 then (500 * (i + 1), 5 * i) else (1500, 12)) n
        \<and> (stableCount (scroll_iter (\<lambda>i. if i < 2 then (500 * (i + 1), 5 * i) else (1500, 12)) n) = 3
             \<or> n = maxScrolls))"
proof -
  let ?s = "\<lambda>i::nat. if i < 2 then (500 * (i + 1), 5 * i) else (1500::nat, 12::nat)"
  have l: "scroll_loop ?s scroll_init
      = \<lparr>lastHeight = 1500, lastLinkCount = 12, scrollCount = 6, stableCount = 3\<rparr>"
    by code_simp
  have i: "scroll_iter ?s 6
      = \<lparr>lastHeight = 1500, lastLinkCount = 12, scrollCount = 6, stableCount = 3\<rparr>"
    by code_simp
  from scroll_loop_stops [of ?s] obtain n where "n \<le> maxScrolls"
    "scroll_loop ?s scroll_init = scroll_iter ?s n"
    "stableCount (scroll_iter ?s n) = 3 \<or> n = maxScrolls"
    by blast
  then have "\<exists>n \<le> maxScrolls. scroll_loop ?s scroll_init = scroll_iter ?s n
      \<and> (stableCount (scroll_iter ?s n) = 3 \<or> n = maxScrolls)"
    by blast
  with l i show ?thesis by blast
qed

section \<open>Numbers: proofs\<close>

lemma bit_length_bounds:
  "0 < n \<Longrightarrow> 2 ^ (bit_length n - 1) \<le> n \<and> n < 2 ^ bit_length n"
proof (induction n rule: bit_length.induct)
  case (1 n)
  show ?case
  proof (cases "n div 2 = 0")
    case True
    with "1.prems" have "n = 1" by (auto simp: div_eq_0_iff)
    then show ?thesis by (simp add: bit_length.simps)
  next
    case False
    then have pos: "0 < n div 2" by simp
    from "1.IH" [OF _ pos] "1.prems"
    have ih: "2 ^ (bit_length (n div 2) - 1) \<le> n div 2" "n div 2 < 2 ^ bit_length (n div 2)"
      by auto
    have bl: "bit_length n = Suc (bit_length (n div 2))"
      using "1.prems" by (subst bit_length.simps) simp
    have pos': "0 < bit_length (n div 2)"
      using pos by (subst bit_length.simps) simp
    define p where "p = (2::nat) ^ (bit_length (n div 2) - 1)"
    have pw: "(2::nat) ^ bit_length (n div 2) = 2 * p"
      using pos' by (cases "bit_length (n div 2)") (simp_all add: p_def)
    have a: "2 * (n div 2) \<le> n" and b: "n < 2 * (n div 2) + 2" by presburger+
    have "2 * p \<le> n" using ih(1) a by (simp add: p_def)
    moreover have "n < 2 * (2 * p)" using ih(2) b unfolding pw by linarith
    ultimately show ?thesis unfolding bl by (simp add: pw)
  qed
qed

lemma bit_length_pos: "0 < n \<Longrightarrow> 0 < bit_length n"
  by (subst bit_length.simps) simp

lemma floor_log2_bounds:
  assumes "0 < a" "0 < b"
  shows "2 powi (floor_log2 a b) \<le> (of_nat a / of_nat b :: rat)
       \<and> (of_nat a / of_nat b :: rat) < 2 powi (floor_log2 a b + 1)"
proof -
  define la lb where "la = bit_length a" and "lb = bit_length b"
  define A B where "A = (of_nat a :: rat)" and "B = (of_nat b :: rat)"
  define e0 where "e0 = int la - int lb"
  have Apos: "0 < A" and Bpos: "0 < B" using assms by (simp_all add: A_def B_def)
  have lapos: "0 < la" and lbpos: "0 < lb"
    using assms by (simp_all add: la_def lb_def bit_length_pos)
  from bit_length_bounds [OF assms(1)] have "2 ^ (la - 1) \<le> a" "a < 2 ^ la"
    by (simp_all add: la_def)
  then have "(of_nat (2 ^ (la - 1)) :: rat) \<le> of_nat a" "(of_nat a :: rat) < of_nat (2 ^ la)"
    by (simp_all only: of_nat_le_iff of_nat_less_iff)
  then have A1: "2 ^ (la - 1) \<le> A" and A2: "A < 2 ^ la" by (simp_all add: A_def)
  from bit_length_bounds [OF assms(2)] have "2 ^ (lb - 1) \<le> b" "b < 2 ^ lb"
    by (simp_all add: lb_def)
  then have "(of_nat (2 ^ (lb - 1)) :: rat) \<le> of_nat b" "(of_nat b :: rat) < of_nat (2 ^ lb)"
    by (simp_all only: of_nat_le_iff of_nat_less_iff)
  then have B1: "2 ^ (lb - 1) \<le> B" and B2: "B < 2 ^ lb" by (simp_all add: B_def)
  have pa: "(2::rat) ^ la = 2 powi (int la)" and pb: "(2::rat) ^ lb = 2 powi (int lb)" by simp_all
  have pa1: "(2::rat) ^ (la - 1) = 2 powi (int la - 1)"
    using lapos by (simp add: power_int_def nat_diff_distrib')
  have pb1: "(2::rat) ^ (lb - 1) = 2 powi (int lb - 1)"
    using lbpos by (simp add: power_int_def nat_diff_distrib')
  \<comment> \<open>the quotient lies strictly between \<open>2 powi (e0 - 1)\<close> and \<open>2 powi (e0 + 1)\<close>\<close>
  have up: "A / B < 2 powi (e0 + 1)"
  proof -
    have "A / B < 2 ^ la / B" using A2 Bpos by (simp add: divide_strict_right_mono)
    also have "\<dots> \<le> 2 ^ la / 2 ^ (lb - 1)" using B1 Bpos by (simp add: frac_le)
    also have "\<dots> = 2 powi (int la - (int lb - 1))"
      unfolding pa pb1 by (simp add: power_int_diff)
    also have "int la - (int lb - 1) = e0 + 1" by (simp add: e0_def)
    finally show ?thesis .
  qed
  have low: "2 powi (e0 - 1) < A / B"
  proof -
    have "e0 - 1 = (int la - 1) - int lb" by (simp add: e0_def)
    then have "(2::rat) powi (e0 - 1) = 2 powi ((int la - 1) - int lb)" by (simp only:)
    also have "\<dots> = (2::rat) ^ (la - 1) / 2 ^ lb"
      unfolding pa1 pb using power_int_diff [of "2::rat" "int la - 1" "int lb"] by simp
    finally have "2 powi (e0 - 1) = (2::rat) ^ (la - 1) / 2 ^ lb" .
    also have "\<dots> \<le> A / 2 ^ lb" using A1 by (simp add: divide_right_mono)
    also have "\<dots> < A / B" using B2 Apos Bpos by (simp add: divide_strict_left_mono)
    finally show ?thesis .
  qed
  have test: "(if 0 \<le> e0 then b * 2 ^ nat e0 \<le> a else b \<le> a * 2 ^ nat (- e0)) \<longleftrightarrow> 2 powi e0 \<le> A / B"
  proof (cases "0 \<le> e0")
    case True
    have "b * 2 ^ nat e0 \<le> a \<longleftrightarrow> (of_nat (b * 2 ^ nat e0) :: rat) \<le> of_nat a"
      by (simp only: of_nat_le_iff)
    also have "\<dots> \<longleftrightarrow> B * 2 ^ nat e0 \<le> A" by (simp add: A_def B_def)
    also have "\<dots> \<longleftrightarrow> 2 ^ nat e0 \<le> A / B" using Bpos by (simp add: field_simps)
    finally show ?thesis using True by (simp add: power_int_def)
  next
    case False
    have "b \<le> a * 2 ^ nat (- e0) \<longleftrightarrow> (of_nat b :: rat) \<le> of_nat (a * 2 ^ nat (- e0))"
      by (simp only: of_nat_le_iff)
    also have "\<dots> \<longleftrightarrow> B \<le> A * 2 ^ nat (- e0)" by (simp add: A_def B_def)
    also have "\<dots> \<longleftrightarrow> 1 / 2 ^ nat (- e0) \<le> A / B" using Bpos by (simp add: field_simps)
    finally show ?thesis using False by (simp add: power_int_def field_simps)
  qed
  have fl: "floor_log2 a b = (if 2 powi e0 \<le> A / B then e0 else e0 - 1)"
    unfolding floor_log2_def Let_def la_def [symmetric] lb_def [symmetric] e0_def [symmetric]
    using test by simp
  show ?thesis
  proof (cases "2 powi e0 \<le> A / B")
    case True
    with up fl show ?thesis by (simp add: A_def B_def)
  next
    case False
    with low fl show ?thesis by (simp add: A_def B_def)
  qed
qed

lemma floor_log2_unique:
  assumes "0 < a" "0 < b"
    and "2 powi e \<le> (of_nat a / of_nat b :: rat)" "(of_nat a / of_nat b :: rat) < 2 powi (e + 1)"
  shows "floor_log2 a b = e"
proof -
  let ?q = "of_nat a / of_nat b :: rat" and ?f = "floor_log2 a b"
  from floor_log2_bounds [OF assms(1,2)] have f: "2 powi ?f \<le> ?q" "?q < 2 powi (?f + 1)"
    by simp_all
  have "\<not> e + 1 \<le> ?f"
  proof
    assume "e + 1 \<le> ?f"
    then have "(2::rat) powi (e + 1) \<le> 2 powi ?f" by (intro power_int_increasing) simp_all
    with f(1) assms(4) show False by simp
  qed
  moreover have "\<not> ?f + 1 \<le> e"
  proof
    assume "?f + 1 \<le> e"
    then have "(2::rat) powi (?f + 1) \<le> 2 powi e" by (intro power_int_increasing) simp_all
    with f(2) assms(3) show False by simp
  qed
  ultimately show ?thesis by simp
qed

lemma floor_log2_nat:
  assumes "0 < b" "b * 2 ^ k \<le> a" "a < b * 2 ^ Suc k"
  shows "floor_log2 a b = int k"
proof (rule floor_log2_unique)
  show "0 < b" by fact
  show "0 < a" using assms by (cases a) auto
  have B: "(0::rat) < of_nat b" using assms(1) by simp
  have "(of_nat (b * 2 ^ k) :: rat) \<le> of_nat a" using assms(2) by (simp only: of_nat_le_iff)
  then show "2 powi int k \<le> (of_nat a / of_nat b :: rat)" using B by (simp add: field_simps)
  have "(of_nat a :: rat) < of_nat (b * 2 ^ Suc k)" using assms(3) by (simp only: of_nat_less_iff)
  then show "(of_nat a / of_nat b :: rat) < 2 powi (int k + 1)"
    using B by (simp add: field_simps power_int_add)
qed


lemma is_digit_char_of: "d < 10 \<Longrightarrow> is_digit (char_of (48 + d))" for d :: nat
proof -
  assume "d < 10"
  then have "d \<in> set [0 ..< 10]" by simp
  then have "d \<in> {0, 1, 2, 3, 4, 5, 6, 7, 8, 9}" by (auto simp: upt_rec)
  moreover have "is_digit (char_of (48 + (0::nat)))" "is_digit (char_of (48 + (1::nat)))"
    "is_digit (char_of (48 + (2::nat)))" "is_digit (char_of (48 + (3::nat)))"
    "is_digit (char_of (48 + (4::nat)))" "is_digit (char_of (48 + (5::nat)))"
    "is_digit (char_of (48 + (6::nat)))" "is_digit (char_of (48 + (7::nat)))"
    "is_digit (char_of (48 + (8::nat)))" "is_digit (char_of (48 + (9::nat)))"
    by code_simp+
  ultimately show ?thesis by auto
qed

lemma of_char_digit: "d < 10 \<Longrightarrow> of_char (char_of (48 + d :: nat)) - 48 = d" for d :: nat
  by (simp add: of_char_of)

lemma dec_small: "n < 10 \<Longrightarrow> dec n = [char_of (48 + n)]"
  by (subst dec.simps) simp

lemma dec_large: "10 \<le> n \<Longrightarrow> dec n = dec (n div 10) @ [char_of (48 + n mod 10)]"
  by (subst dec.simps) simp

lemma dec_digits: "\<forall>c \<in> set (dec n). is_digit c"
proof (induction n rule: dec.induct)
  case (1 n)
  show ?case
  proof (cases "n < 10")
    case True
    then show ?thesis by (simp add: dec_small is_digit_char_of)
  next
    case False
    with 1 show ?thesis by (simp add: dec_large is_digit_char_of)
  qed
qed

lemma dec_not_Nil: "dec n \<noteq> []"
  by (subst dec.simps) simp

lemma nat_of_digits_snoc: "nat_of_digits (s @ [c]) = 10 * nat_of_digits s + (of_char c - 48)"
  by (simp add: nat_of_digits_def)

lemma nat_of_digits_dec: "nat_of_digits (dec n) = n"
proof (induction n rule: dec.induct)
  case (1 n)
  show ?case
  proof (cases "n < 10")
    case True
    then show ?thesis by (simp add: dec_small nat_of_digits_def of_char_digit)
  next
    case False
    then have "nat_of_digits (dec n) = 10 * (n div 10) + n mod 10"
      using 1 by (simp add: dec_large nat_of_digits_snoc of_char_digit)
    then show ?thesis by simp
  qed
qed

lemma length_dec_le_2: "length (dec n) \<le> 2 \<longleftrightarrow> n < 100"
proof (cases "n < 10")
  case True
  then show ?thesis by (simp add: dec_small)
next
  case False
  show ?thesis
  proof (cases "n div 10 < 10")
    case True
    with False show ?thesis by (simp add: dec_large dec_small)
  next
    case F2: False
    with False have "length (dec n) = Suc (Suc (length (dec (n div 10 div 10))))"
      by (simp add: dec_large)
    with F2 show ?thesis by (simp add: dec_not_Nil)
  qed
qed

lemma nat_of_digits_zeros: "nat_of_digits (replicate j (CHR ''0'') @ s) = nat_of_digits s"
proof -
  have "foldl (\<lambda>n c. 10 * n + (of_char c - 48)) 0 (replicate j (CHR ''0'')) = (0::nat)"
    by (induction j) simp_all
  then show ?thesis by (simp add: nat_of_digits_def)
qed

lemma fixed2_padded:
  "fixed2 n = take (length (padded n) - 2) (padded n) @ ''.'' @ drop (length (padded n) - 2) (padded n)"
proof -
  have "dec 0 = ''0''" by code_simp
  then have m0: "(if n = 0 then ''0'' else dec n) = dec n" by simp
  show ?thesis
    unfolding fixed2_def m0 Let_def padded_def by auto
qed

lemma padded_props:
  "3 \<le> length (padded n)" "\<forall>c \<in> set (padded n). is_digit c" "nat_of_digits (padded n) = n"
proof -
  show "3 \<le> length (padded n)"
    using length_dec_le_2 [of n] dec_not_Nil [of n]
    by (auto simp: padded_def)
  have z: "is_digit (CHR ''0'')" by (simp add: is_digit_def)
  show "\<forall>c \<in> set (padded n). is_digit c"
    using dec_digits [of n] z by (auto simp: padded_def)
  show "nat_of_digits (padded n) = n"
    by (simp add: padded_def nat_of_digits_zeros nat_of_digits_dec)
qed

lemma two_decimalsI:
  assumes "ip \<noteq> []" "\<forall>c \<in> set ip. is_digit c" "length fp = 2" "\<forall>c \<in> set fp. is_digit c"
  shows "two_decimals (ip @ ''.'' @ fp)"
proof -
  have nd: "\<not> is_digit (CHR ''.'')" by (simp add: is_digit_def)
  have t: "takeWhile is_digit (ip @ ''.'' @ fp) = ip"
    using assms(2) nd by (simp add: takeWhile_append1 takeWhile_append2)
  have d: "dropWhile is_digit (ip @ ''.'' @ fp) = ''.'' @ fp"
    using assms(2) nd by (simp add: dropWhile_append1 dropWhile_append2)
  from assms(3) obtain d1 d2 where fp: "fp = [d1, d2]"
    by (cases fp; cases "tl fp"; cases "tl (tl fp)") auto
  show ?thesis
    unfolding two_decimals_def t d Let_def using assms(1,4) fp by simp
qed

lemma fixed2_shape:
  "\<exists>ip fp. fixed2 n = ip @ ''.'' @ fp \<and> ip \<noteq> [] \<and> (\<forall>c \<in> set ip. is_digit c)
     \<and> length fp = 2 \<and> (\<forall>c \<in> set fp. is_digit c) \<and> nat_of_digits (ip @ fp) = n"
proof -
  let ?p = "padded n"
  let ?ip = "take (length ?p - 2) ?p" and ?fp = "drop (length ?p - 2) ?p"
  have "fixed2 n = ?ip @ ''.'' @ ?fp" by (rule fixed2_padded)
  moreover have "?ip \<noteq> []" using padded_props(1) [of n] by auto
  moreover have "\<forall>c \<in> set ?ip. is_digit c"
    using padded_props(2) [of n] by (auto dest: in_set_takeD)
  moreover have "length ?fp = 2" using padded_props(1) [of n] by simp
  moreover have "\<forall>c \<in> set ?fp. is_digit c"
    using padded_props(2) [of n] by (auto dest: in_set_dropD)
  moreover have "nat_of_digits (?ip @ ?fp) = n"
    by (simp add: padded_props(3))
  ultimately show ?thesis by blast
qed

lemma two_decimals_fixed2: "two_decimals (fixed2 n)"
proof -
  from fixed2_shape [of n] obtain ip fp where "fixed2 n = ip @ ''.'' @ fp" "ip \<noteq> []"
    "\<forall>c \<in> set ip. is_digit c" "length fp = 2" "\<forall>c \<in> set fp. is_digit c"
    by blast
  then show ?thesis using two_decimalsI [of ip fp] by simp
qed

lemma hundredths_close:
  "\<bar>of_nat (hundredths m e) / 100 - number_value m e\<bar> \<le> 1 / 200"
proof (cases "0 \<le> e")
  case True
  then show ?thesis by (simp add: hundredths_def number_value_def)
next
  case False
  define k where "k = nat (- e)"
  define A where "A = 200 * m + 2 ^ k"
  define D where "D = 2 * (2::nat) ^ k"
  define n where "n = A div D"
  define r where "r = A mod D"
  have h: "hundredths m e = n" using False by (simp add: hundredths_def k_def A_def D_def n_def)
  have v: "number_value m e = of_nat m / 2 ^ k" using False by (simp add: number_value_def k_def)
  have A: "A = n * D + r" by (simp add: n_def r_def)
  have r: "r < D" by (simp add: r_def D_def)
  have "(of_nat n :: rat) * of_nat D + of_nat r = of_nat A"
    by (simp add: A)
  then have eq: "(of_nat n :: rat) * (2 * 2 ^ k) + of_nat r = 200 * of_nat m + 2 ^ k"
    by (simp add: D_def A_def)
  have "(of_nat n :: rat) / 100 - of_nat m / 2 ^ k = (of_nat n * (2 * 2 ^ k) - 200 * of_nat m) / (200 * 2 ^ k)"
    by (simp add: field_simps)
  also have "\<dots> = (2 ^ k - of_nat r) / (200 * 2 ^ k)"
    using eq by (simp add: algebra_simps)
  finally have d: "(of_nat n :: rat) / 100 - of_nat m / 2 ^ k = (2 ^ k - of_nat r) / (200 * 2 ^ k)" .
  have "(of_nat r :: rat) < of_nat D" using r by (simp only: of_nat_less_iff)
  then have r': "(of_nat r :: rat) < 2 * 2 ^ k" by (simp add: D_def)
  have "\<bar>(2 ^ k - of_nat r :: rat)\<bar> \<le> 2 ^ k"
    using r' by (simp add: abs_le_iff)
  then have "\<bar>(2 ^ k - of_nat r :: rat) / (200 * 2 ^ k)\<bar> \<le> 2 ^ k / (200 * 2 ^ k)"
    by (simp add: abs_divide divide_right_mono del: abs_le_iff)
  also have "\<dots> = (1 / 200 :: rat)" by simp
  finally show ?thesis by (simp add: h v d)
qed

lemma number_value_powi: "number_value m e = of_nat m * 2 powi e"
proof (cases "0 \<le> e")
  case True
  then show ?thesis by (simp add: number_value_def power_int_def)
next
  case False
  then show ?thesis by (simp add: number_value_def power_int_def field_simps)
qed

lemma round_half_even_close:
  assumes "0 < b"
  shows "\<bar>of_nat (round_half_even a b) - (of_nat a / of_nat b :: rat)\<bar> \<le> 1 / 2"
proof -
  define q r where "q = a div b" and "r = a mod b"
  have a: "a = q * b + r" and r: "r < b" using assms by (simp_all add: q_def r_def)
  have B: "(0::rat) < of_nat b" using assms by simp
  have ab: "(of_nat a / of_nat b :: rat) = of_nat q + of_nat r / of_nat b"
    using B by (simp add: a field_simps)
  consider "2 * r < b" | "b < 2 * r" | "2 * r = b" by linarith
  then show ?thesis
  proof cases
    case 1
    then have "round_half_even a b = q" by (simp add: round_half_even_def q_def r_def)
    moreover have "(of_nat (2 * r) :: rat) < of_nat b" using 1 by (simp only: of_nat_less_iff)
    then have "(of_nat r / of_nat b :: rat) \<le> 1 / 2" using B by (simp add: field_simps)
    ultimately show ?thesis using B by (simp add: ab)
  next
    case 2
    then have "round_half_even a b = q + 1" by (simp add: round_half_even_def q_def r_def)
    moreover have "(of_nat b :: rat) < of_nat (2 * r)" using 2 by (simp only: of_nat_less_iff)
    then have "1 / 2 \<le> (of_nat r / of_nat b :: rat)" using B by (simp add: field_simps)
    moreover have "(of_nat r :: rat) < of_nat b" using r by (simp only: of_nat_less_iff)
    then have "(of_nat r / of_nat b :: rat) < 1" using B by simp
    ultimately show ?thesis by (simp add: ab abs_le_iff)
  next
    case 3
    then have "(of_nat (2 * r) :: rat) = of_nat b" by (simp only:)
    then have h: "(of_nat r / of_nat b :: rat) = 1 / 2" using B by (simp add: field_simps)
    have "round_half_even a b = q \<or> round_half_even a b = q + 1"
      using 3 by (simp add: round_half_even_def q_def r_def Let_def)
    then show ?thesis by (auto simp: ab h)
  qed
qed

lemma round_half_even_upper:
  assumes "0 < b" "a \<le> k * b"
  shows "round_half_even a b \<le> k"
proof -
  have q: "a div b \<le> k" using assms by (metis div_le_mono div_mult_self_is_m)
  show ?thesis
  proof (cases "a div b = k")
    case True
    have "a = (a div b) * b + a mod b" by simp
    with True assms(2) have "a mod b = 0" by (metis add_diff_cancel_left' diff_is_0_eq mult.commute div_mult_mod_eq)
    with True show ?thesis by (simp add: round_half_even_def assms(1))
  next
    case False
    with q have "a div b < k" by simp
    then show ?thesis by (simp add: round_half_even_def Let_def)
  qed
qed

lemma round_half_even_lower:
  assumes "0 < b" "k * b \<le> a"
  shows "k \<le> round_half_even a b"
proof -
  have "k \<le> a div b" using assms by (metis div_le_mono div_mult_self_is_m)
  then show ?thesis by (simp add: round_half_even_def Let_def)
qed


lemma round_half_even_le:
  assumes "0 < den" "(of_nat num / of_nat den :: rat) \<le> of_nat K"
  shows "round_half_even num den \<le> K"
proof (rule round_half_even_upper [OF assms(1)])
  have "(of_nat num :: rat) \<le> of_nat K * of_nat den"
    using assms by (simp add: field_simps)
  then have "(of_nat num :: rat) \<le> of_nat (K * den)" by simp
  then show "num \<le> K * den" by (simp only: of_nat_le_iff)
qed

lemma round_half_even_ge:
  assumes "0 < den" "of_nat K \<le> (of_nat num / of_nat den :: rat)"
  shows "K \<le> round_half_even num den"
proof (rule round_half_even_lower [OF assms(1)])
  have "of_nat K * of_nat den \<le> (of_nat num :: rat)"
    using assms by (simp add: field_simps)
  then have "(of_nat (K * den) :: rat) \<le> of_nat num" by simp
  then show "K * den \<le> num" by (simp only: of_nat_le_iff)
qed

lemma scaled_quotient:
  assumes "0 < b"
  shows "\<exists>num den. 0 < den
     \<and> (if 0 \<le> sh then round_half_even a (b * 2 ^ nat sh)
         else round_half_even (a * 2 ^ nat (- sh)) b) = round_half_even num den
     \<and> (of_nat num / of_nat den :: rat) = (of_nat a / of_nat b) / 2 powi sh"
proof (cases "0 \<le> sh")
  case True
  have "(of_nat a / of_nat (b * 2 ^ nat sh) :: rat) = (of_nat a / of_nat b) / 2 powi sh"
    using True by (simp add: power_int_def)
  with True assms show ?thesis
    by (intro exI [of _ a] exI [of _ "b * 2 ^ nat sh"]) simp
next
  case False
  have "(of_nat (a * 2 ^ nat (- sh)) / of_nat b :: rat) = (of_nat a / of_nat b) / 2 powi sh"
    using False by (simp add: power_int_def field_simps)
  with False assms show ?thesis
    by (intro exI [of _ "a * 2 ^ nat (- sh)"] exI [of _ b]) simp
qed

lemma nearest_double_cases:
  assumes "0 < a" "0 < b"
  obtains mm sh where
    "\<bar>of_nat mm * 2 powi sh - (of_nat a / of_nat b :: rat)\<bar> \<le> 2 powi (sh - 1)"
    "mm \<le> 2 ^ 53"
    "- 1074 \<le> sh"
    "sh = - 1074 \<or> 2 ^ 52 \<le> mm"
    "nearest_double a b =
       (if mm = 2 ^ 53 then (if 971 \<le> sh then Infinity else Finite (2 ^ 52) (sh + 1))
        else if 972 \<le> sh then Infinity else Finite mm sh)"
    "972 \<le> sh \<longrightarrow> 2 ^ 1024 \<le> (of_nat a / of_nat b :: rat)"
proof -
  define q where "q = (of_nat a / of_nat b :: rat)"
  define fl where "fl = floor_log2 a b"
  define e0 where "e0 = max fl (- 1022)"
  define sh where "sh = e0 - 52"
  define P where "P = (2::rat) powi sh"
  have Ppos: "0 < P" by (simp add: P_def)
  from floor_log2_bounds [OF assms] have fl: "2 powi fl \<le> q" "q < 2 powi (fl + 1)"
    by (simp_all add: q_def fl_def)
  from scaled_quotient [OF assms(2), of sh a] obtain num den where nd: "0 < den"
    "(if 0 \<le> sh then round_half_even a (b * 2 ^ nat sh)
      else round_half_even (a * 2 ^ nat (- sh)) b) = round_half_even num den"
    "(of_nat num / of_nat den :: rat) = q / P"
    unfolding q_def P_def by blast
  define mm where "mm = round_half_even num den"
  have close: "\<bar>of_nat mm - q / P\<bar> \<le> 1 / 2"
    using round_half_even_close [OF nd(1), of num] by (simp add: mm_def nd(3))
  have "\<bar>of_nat mm * P - q\<bar> = \<bar>of_nat mm - q / P\<bar> * P"
  proof -
    have "of_nat mm * P - q = (of_nat mm - q / P) * P" using Ppos by (simp add: field_simps)
    then show ?thesis using Ppos by (simp add: abs_mult)
  qed
  also have "\<dots> \<le> 1 / 2 * P" using close Ppos by (intro mult_right_mono) simp_all
  also have "\<dots> = 2 powi (sh - 1)"
    using power_int_diff [of "2::rat" sh 1] by (simp add: P_def)
  finally have err: "\<bar>of_nat mm * 2 powi sh - q\<bar> \<le> 2 powi (sh - 1)" by (simp add: P_def)
  have "fl + 1 \<le> sh + 53" by (simp add: sh_def e0_def)
  then have "(2::rat) powi (fl + 1) \<le> 2 powi (sh + 53)" by (intro power_int_increasing) simp_all
  also have "\<dots> = P * 2 ^ 53" by (simp add: P_def power_int_add)
  finally have "q < P * 2 ^ 53" using fl(2) by simp
  then have "q / P \<le> of_nat (2 ^ 53)" using Ppos by (simp add: field_simps)
  then have up: "mm \<le> 2 ^ 53"
    unfolding mm_def using nd(1,3) by (intro round_half_even_le) simp_all
  have low: "sh = - 1074 \<or> 2 ^ 52 \<le> mm"
  proof (cases "- 1022 \<le> fl")
    case False
    then show ?thesis by (simp add: sh_def e0_def)
  next
    case True
    then have "sh + 52 = fl" by (simp add: sh_def e0_def)
    then have "(2::rat) powi fl = 2 powi (sh + 52)" by simp
    also have "\<dots> = P * 2 ^ 52" by (simp add: P_def power_int_add)
    finally have "(2::rat) powi fl = P * 2 ^ 52" .
    with fl(1) have "of_nat (2 ^ 52) \<le> q / P" using Ppos by (simp add: field_simps)
    then have "2 ^ 52 \<le> mm"
      unfolding mm_def using nd(1,3) by (intro round_half_even_ge) simp_all
    then show ?thesis ..
  qed
  have shl: "- 1074 \<le> sh" by (simp add: sh_def e0_def)
  have nz: "a \<noteq> 0" using assms(1) by simp
  have nd_eq: "nearest_double a b =
       (if mm = 2 ^ 53 then (if 971 \<le> sh then Infinity else Finite (2 ^ 52) (sh + 1))
        else if 972 \<le> sh then Infinity else Finite mm sh)"
    unfolding nearest_double_def Let_def fl_def [symmetric] e0_def [symmetric] sh_def [symmetric]
    using nz nd(2) by (simp add: mm_def sh_def)
  have big: "972 \<le> sh \<longrightarrow> 2 ^ 1024 \<le> q"
  proof
    assume "972 \<le> sh"
    then have "1024 \<le> fl" by (simp add: sh_def e0_def)
    then have "(2::rat) powi 1024 \<le> 2 powi fl" by (intro power_int_increasing) simp_all
    with fl(1) show "2 ^ 1024 \<le> q" by simp
  qed
  show ?thesis
    using that [of mm sh] err up shl low nd_eq big unfolding q_def by blast
qed

lemma nearest_double_Finite:
  assumes "0 < b" "nearest_double a b = Finite m e"
  shows "\<bar>number_value m e - (of_nat a / of_nat b :: rat)\<bar> \<le> 2 powi (e - 1)
       \<and> ((m < 2 ^ 52 \<and> e = - 1074) \<or> (2 ^ 52 \<le> m \<and> m < 2 ^ 53 \<and> - 1074 \<le> e \<and> e \<le> 971))"
proof (cases "a = 0")
  case True
  with assms(2) show ?thesis by (simp add: nearest_double_def number_value_powi)
next
  case False
  then have "0 < a" by simp
  from nearest_double_cases [OF this assms(1)] obtain mm sh where c:
    "\<bar>of_nat mm * 2 powi sh - (of_nat a / of_nat b :: rat)\<bar> \<le> 2 powi (sh - 1)"
    "mm \<le> 2 ^ 53" "- 1074 \<le> sh" "sh = - 1074 \<or> 2 ^ 52 \<le> mm"
    "nearest_double a b =
       (if mm = 2 ^ 53 then (if 971 \<le> sh then Infinity else Finite (2 ^ 52) (sh + 1))
        else if 972 \<le> sh then Infinity else Finite mm sh)"
    by blast
  show ?thesis
  proof (cases "mm = 2 ^ 53")
    case True
    with c(5) assms(2) have s: "sh < 971" and m: "m = 2 ^ 52" and e: "e = sh + 1"
      by (auto split: if_splits)
    have "number_value m e = of_nat mm * 2 powi sh"
      unfolding number_value_powi m e True by (simp add: power_int_add)
    moreover have "(2::rat) powi (sh - 1) \<le> 2 powi (e - 1)"
      unfolding e by (intro power_int_increasing) simp_all
    ultimately have "\<bar>number_value m e - (of_nat a / of_nat b :: rat)\<bar> \<le> 2 powi (e - 1)"
      using c(1) by simp
    moreover have "2 ^ 52 \<le> m \<and> m < 2 ^ 53 \<and> - 1074 \<le> e \<and> e \<le> 971"
      using m e s c(3) by simp
    ultimately show ?thesis by blast
  next
    case False
    with c(5) assms(2) have s: "sh < 972" and m: "m = mm" and e: "e = sh"
      by (auto split: if_splits)
    have lt: "m < 2 ^ 53" using c(2) False m by simp
    have "\<bar>number_value m e - (of_nat a / of_nat b :: rat)\<bar> \<le> 2 powi (e - 1)"
      unfolding number_value_powi m e using c(1) by simp
    moreover have "(m < 2 ^ 52 \<and> e = - 1074) \<or> (2 ^ 52 \<le> m \<and> m < 2 ^ 53 \<and> - 1074 \<le> e \<and> e \<le> 971)"
      using c(3,4) s lt unfolding m e by (cases "mm < 2 ^ 52") auto
    ultimately show ?thesis by blast
  qed
qed

lemma nearest_double_Infinity:
  assumes "0 < b" "nearest_double a b = Infinity"
  shows "2 ^ 1024 - 2 ^ 970 \<le> (of_nat a / of_nat b :: rat)"
proof (cases "a = 0")
  case True
  with assms(2) show ?thesis by (simp add: nearest_double_def)
next
  case False
  then have "0 < a" by simp
  from nearest_double_cases [OF this assms(1)] obtain mm sh where c:
    "\<bar>of_nat mm * 2 powi sh - (of_nat a / of_nat b :: rat)\<bar> \<le> 2 powi (sh - 1)"
    "nearest_double a b =
       (if mm = 2 ^ 53 then (if 971 \<le> sh then Infinity else Finite (2 ^ 52) (sh + 1))
        else if 972 \<le> sh then Infinity else Finite mm sh)"
    "972 \<le> sh \<longrightarrow> 2 ^ 1024 \<le> (of_nat a / of_nat b :: rat)"
    by blast
  show ?thesis
  proof (cases "972 \<le> sh")
    case True
    with c(3) have "2 ^ 1024 \<le> (of_nat a / of_nat b :: rat)" by blast
    then show ?thesis by simp
  next
    case False
    with c(2) assms(2) have mm: "mm = 2 ^ 53" and "971 \<le> sh" by (auto split: if_splits)
    with False have sh: "sh = 971" by simp
    have "(of_nat mm :: rat) * 2 powi sh = 2 ^ 1024" unfolding mm sh by simp
    moreover have "(2::rat) powi (sh - 1) = 2 ^ 970" unfolding sh by simp
    ultimately have "\<bar>2 ^ 1024 - (of_nat a / of_nat b :: rat)\<bar> \<le> 2 ^ 970" using c(1) by simp
    then show ?thesis by (simp add: abs_le_iff)
  qed
qed

lemma fdiv_close:
  assumes "fdiv (Finite m1 e1) (Finite m2 e2) = Finite m e" "0 < m2"
  shows "\<bar>number_value m e - number_value m1 e1 / number_value m2 e2\<bar> \<le> 2 powi (e - 1)"
proof (cases "e2 \<le> e1")
  case True
  with assms have n: "nearest_double (m1 * 2 ^ nat (e1 - e2)) m2 = Finite m e" by simp
  have r: "(2::rat) ^ nat (e1 - e2) = 2 powi e1 / 2 powi e2"
    using True power_int_diff [of "2::rat" e1 e2] by (simp add: power_int_def)
  have "(of_nat (m1 * 2 ^ nat (e1 - e2)) / of_nat m2 :: rat)
      = of_nat m1 * (2 powi e1 / 2 powi e2) / of_nat m2"
    by (simp add: r)
  also have "\<dots> = number_value m1 e1 / number_value m2 e2"
    by (simp add: number_value_powi)
  finally have "(of_nat (m1 * 2 ^ nat (e1 - e2)) / of_nat m2 :: rat)
      = number_value m1 e1 / number_value m2 e2" .
  with nearest_double_Finite [OF assms(2) n] show ?thesis by simp
next
  case False
  with assms have n: "nearest_double m1 (m2 * 2 ^ nat (e2 - e1)) = Finite m e" by simp
  have pos: "0 < m2 * 2 ^ nat (e2 - e1)" using assms(2) by simp
  have "(2::rat) powi e2 / 2 powi e1 = 2 ^ nat (e2 - e1)"
    using False power_int_diff [of "2::rat" e2 e1] by (simp add: power_int_def)
  then have "(2::rat) powi e2 = 2 ^ nat (e2 - e1) * 2 powi e1"
    by (simp add: field_simps)
  then have "(of_nat m1 / of_nat (m2 * 2 ^ nat (e2 - e1)) :: rat)
      = number_value m1 e1 / number_value m2 e2"
    by (simp add: number_value_powi)
  with nearest_double_Finite [OF pos n] show ?thesis by simp
qed

section \<open>The derived metric: proofs\<close>

lemmas number_eval =
  nearest_double_def floor_log2_def bit_length.simps round_half_even_def Let_def

lemmas string_eval = dec.simps char_of_def bit_iff_odd

lemma exec_50:
  "exec number_items (Some (0, 3)) (''50'' @ [cent]) = Some \<lparr>whole = ''50'', group1 = Some ''50''\<rparr>"
  by code_simp

lemma exec_100d:
  "exec amount_items (Some (0, 3)) ''$100'' = Some \<lparr>whole = ''100'', group1 = Some ''100''\<rparr>"
  by code_simp

lemma parseFloat_50: "parseFloat ''50'' = Finite 7036874417766400 (- 47)"
  by (simp add: parseFloat_def is_digit_def nat_of_digits_def number_eval)

lemma parseFloat_100: "parseFloat ''100'' = Finite 7036874417766400 (- 46)"
  by (simp add: parseFloat_def is_digit_def nat_of_digits_def number_eval)

lemma hundred: "nearest_double 100 1 = Finite 7036874417766400 (- 46)"
  by (simp add: number_eval)

lemma priceInDollars_50: "priceInDollars (''50'' @ [cent]) = Finite 4503599627370496 (- 53)"
  unfolding priceInDollars_def priceInCents_def exec_50 hundred
  by (simp add: parseFloat_50) (simp add: number_eval)

lemma valueNum_100: "valueNum ''$100'' = Finite 7036874417766400 (- 46)"
  unfolding valueNum_def valueStr_def exec_100d
  by (simp add: parseFloat_100)

lemma quotient_200:
  "fdiv (Finite 7036874417766400 (- 46)) (Finite 4503599627370496 (- 53))
     = Finite 7036874417766400 (- 45)"
  by (simp add: number_eval)

lemma nat_of_digits_append_zeros:
  "nat_of_digits (s @ replicate n (CHR ''0'')) = nat_of_digits s * 10 ^ n"
proof (induction n)
  case 0
  show ?case by simp
next
  case (Suc n)
  have "s @ replicate (Suc n) (CHR ''0'') = (s @ replicate n (CHR ''0'')) @ ''0''"
    by (simp add: replicate_append_same)
  then show ?case
    by (simp only: nat_of_digits_snoc Suc.IH) simp
qed

lemma is_digit_simps: "is_digit (CHR ''0'')" "is_digit (CHR ''1'')" "\<not> is_digit (CHR '','')"
  by (simp_all add: is_digit_def)

lemma parseFloat_overflow: "parseFloat (CHR ''1'' # replicate 309 (CHR ''0'')) = Infinity"
proof -
  have n: "nat_of_digits (CHR ''1'' # replicate 309 (CHR ''0'')) = 10 ^ 309"
    using nat_of_digits_append_zeros [of "''1''" 309] by (simp add: nat_of_digits_def)
  have "floor_log2 (10 ^ 309) 1 = int 1026"
    by (rule floor_log2_nat) simp_all
  then have "nearest_double (10 ^ 309) 1 = Infinity"
    by (simp add: nearest_double_def Let_def)
  then show ?thesis
    by (simp add: parseFloat_def is_digit_simps takeWhile_replicate dropWhile_replicate n)
qed

lemma exec_overflow:
  "exec amount_items (Some (0, 3)) (CHR ''$'' # CHR ''1'' # replicate 309 (CHR ''0''))
     = Some \<lparr>whole = CHR ''1'' # replicate 309 (CHR ''0''),
             group1 = Some (CHR ''1'' # replicate 309 (CHR ''0''))\<rparr>"
  by code_simp

lemma valueNum_overflow: "valueNum (CHR ''$'' # CHR ''1'' # replicate 309 (CHR ''0'')) = Infinity"
  unfolding valueNum_def valueStr_def exec_overflow
  by (simp add: parseFloat_overflow)

lemma calcOutcome_overflow:
  "calcOutcome (''50'' @ [cent]) (CHR ''$'' # CHR ''1'' # replicate 309 (CHR ''0'')) = ''Infinity''"
  unfolding calcOutcome_def valueNum_overflow priceInDollars_50
  by simp

lemma exec_100c:
  "exec number_items (Some (0, 3)) (''100'' @ [cent]) = Some \<lparr>whole = ''100'', group1 = Some ''100''\<rparr>"
  by code_simp

lemma priceInDollars_100: "priceInDollars (''100'' @ [cent]) = Finite 4503599627370496 (- 52)"
  unfolding priceInDollars_def priceInCents_def exec_100c hundred
  by (simp add: parseFloat_100) (simp add: number_eval)

lemma exec_1e21:
  "exec amount_items (Some (0, 3)) ''$1000000000000000000000''
     = Some \<lparr>whole = ''1000000000000000000000'', group1 = Some ''1000000000000000000000''\<rparr>"
  by code_simp

lemma parseFloat_1e21: "parseFloat ''1000000000000000000000'' = Finite 7629394531250000 17"
  by (simp add: parseFloat_def is_digit_def nat_of_digits_def number_eval)

lemma valueNum_1e21: "valueNum ''$1000000000000000000000'' = Finite 7629394531250000 17"
  unfolding valueNum_def valueStr_def exec_1e21
  by (simp add: parseFloat_1e21)

lemma quotient_1e21:
  "fdiv (Finite 7629394531250000 17) (Finite 4503599627370496 (- 52)) = Finite 7629394531250000 17"
  by (simp add: number_eval)

lemma shortest_digits_1e21:
  "shortest_digits (Finite 7629394531250000 17) 1000000000000000000000 22 (Suc 0) = (1, 1, 22)"
proof -
  have c: "candidates 1000000000000000000000 22 (Suc 0) = [(1, 22), (2, 22)]"
    by (simp add: candidates_def)
  have n1: "nearest_double 1000000000000000000000 (Suc 0) = Finite 7629394531250000 17"
    by (simp add: number_eval)
  show ?thesis
    by (subst shortest_digits.simps) (simp add: c n1)
qed

lemma toFixed2_1e21: "toFixed2 (Finite 7629394531250000 17) = ''1e+21''"
proof -
  have g: "ge_1e21 7629394531250000 17" by (simp add: ge_1e21_def)
  have i: "integer_value 7629394531250000 17 = 1000000000000000000000"
    by (simp add: integer_value_def)
  have l: "length (dec 1000000000000000000000) = 22" by (simp add: string_eval)
  have d1: "dec (Suc 0) = ''1''" and d21: "dec 21 = ''21''" by (simp_all add: string_eval)
  show ?thesis
    by (simp add: g toString_large_def i l shortest_digits_1e21 d1 d21)
qed

lemma exec_price_overflow:
  "exec number_items (Some (0, 3)) (CHR ''1'' # replicate 309 (CHR ''0'') @ [cent])
     = Some \<lparr>whole = CHR ''1'' # replicate 309 (CHR ''0''),
             group1 = Some (CHR ''1'' # replicate 309 (CHR ''0''))\<rparr>"
  by code_simp

lemma priceInDollars_overflow:
  "priceInDollars (CHR ''1'' # replicate 309 (CHR ''0'') @ [cent]) = Infinity"
  unfolding priceInDollars_def priceInCents_def exec_price_overflow hundred
  by (simp add: parseFloat_overflow)

lemma calcOutcome_NaN:
  "calcOutcome (CHR ''1'' # replicate 309 (CHR ''0'') @ [cent])
     (CHR ''$'' # CHR ''1'' # replicate 309 (CHR ''0'')) = ''NaN''"
  unfolding calcOutcome_def valueNum_overflow priceInDollars_overflow
  by simp

lemma exec_45:
  "exec number_items (Some (0, 3)) (''45'' @ [cent]) = Some \<lparr>whole = ''45'', group1 = Some ''45''\<rparr>"
  by code_simp

lemma exec_5423:
  "exec amount_items (Some (0, 3)) ''$5,423'' = Some \<lparr>whole = ''5,423'', group1 = Some ''5,423''\<rparr>"
  by code_simp

lemma parseFloat_45: "parseFloat ''45'' = Finite 6333186975989760 (- 47)"
  by (simp add: parseFloat_def is_digit_def nat_of_digits_def number_eval)

lemma parseFloat_5423: "parseFloat ''5423'' = Finite 5962651557429248 (- 40)"
  by (simp add: parseFloat_def is_digit_def nat_of_digits_def number_eval)

lemma priceInDollars_45: "priceInDollars (''45'' @ [cent]) = Finite 8106479329266893 (- 54)"
  unfolding priceInDollars_def priceInCents_def exec_45 hundred
  by (simp add: parseFloat_45) (simp add: number_eval)

lemma valueNum_5423: "valueNum ''$5,423'' = Finite 5962651557429248 (- 40)"
  unfolding valueNum_def valueStr_def exec_5423
  by (simp add: parseFloat_5423)

lemma quotient_5423:
  "fdiv (Finite 5962651557429248 (- 40)) (Finite 8106479329266893 (- 54))
     = Finite 6625168397143609 (- 39)"
  by (simp add: number_eval)

lemma hundredths_5423: "hundredths 6625168397143609 (- 39) = 1205111"
  by (simp add: hundredths_def)

lemma fixed2_1205111: "fixed2 1205111 = ''12051.11''"
  by (simp add: fixed2_def string_eval)

lemma calcOutcome_50_100: "calcOutcome (''50'' @ [cent]) ''$100'' = ''200.00''"
proof -
  have h: "hundredths 7036874417766400 (- 45) = 20000" by (simp add: hundredths_def)
  have f: "fixed2 20000 = ''200.00''" by (simp add: fixed2_def string_eval)
  show ?thesis
    unfolding calcOutcome_def valueNum_100 priceInDollars_50 quotient_200
    by (simp add: ge_1e21_def h f)
qed


text \<open>
  The outcome below \<open>10 ^ 21\<close>. For every record with a priced-quantity text and a
  monetary-value text that are not empty, whose unit price (the cents read from the text,
  divided by 100 in double arithmetic) is strictly positive and whose quotient, value
  divided by unit price in double arithmetic, is a finite double below \<open>10 ^ 21\<close>: the
  outcome is that quotient rounded to the nearest hundredth (the larger of two nearest),
  written with its integer digits, a dot and exactly two decimals. The hundredths differ
  from the quotient by at most half a hundredth, and the quotient \<open>m * 2 ^ e\<close> differs
  from the exact ratio of value and unit price by at most \<open>2 ^ (e - 1)\<close>, half a unit in
  its last place. The texts "50 cent" and "$100" give "200.00".
\<close>

lemma outcome_two_decimals:
  assumes "avgPriceValue \<noteq> []" and "val \<noteq> []"
    and "gt_zero (priceInDollars avgPriceValue)"
    and "fdiv (valueNum val) (priceInDollars avgPriceValue) = Finite m e"
    and "\<not> ge_1e21 m e"
  shows "calcOutcome avgPriceValue val = fixed2 (hundredths m e)
       \<and> two_decimals (calcOutcome avgPriceValue val)
       \<and> (\<exists>ip fp. calcOutcome avgPriceValue val = ip @ ''.'' @ fp \<and> length fp = 2
              \<and> nat_of_digits (ip @ fp) = hundredths m e)
       \<and> \<bar>of_nat (hundredths m e) / 100 - number_value m e\<bar> \<le> 1 / 200
       \<and> (\<forall>mv ev mp ep.
             valueNum val = Finite mv ev \<and> priceInDollars avgPriceValue = Finite mp ep \<longrightarrow>
             \<bar>number_value m e - number_value mv ev / number_value mp ep\<bar> \<le> 2 powi (e - 1))"
proof -
  have p: "\<not> isNaN (priceInDollars avgPriceValue)"
    using assms(3) by (cases "priceInDollars avgPriceValue") simp_all
  have v: "\<not> isNaN (valueNum val)"
    using assms(4) by (cases "valueNum val") simp_all
  have c: "calcOutcome avgPriceValue val = fixed2 (hundredths m e)"
    using assms p v by (simp add: calcOutcome_def)
  moreover have "two_decimals (fixed2 (hundredths m e))" by (rule two_decimals_fixed2)
  moreover from fixed2_shape [of "hundredths m e"]
  have "\<exists>ip fp. fixed2 (hundredths m e) = ip @ ''.'' @ fp \<and> length fp = 2
          \<and> nat_of_digits (ip @ fp) = hundredths m e" by blast
  moreover have "\<forall>mv ev mp ep.
      valueNum val = Finite mv ev \<and> priceInDollars avgPriceValue = Finite mp ep \<longrightarrow>
      \<bar>number_value m e - number_value mv ev / number_value mp ep\<bar> \<le> 2 powi (e - 1)"
  proof (intro allI impI)
    fix mv ev mp ep
    assume f: "valueNum val = Finite mv ev \<and> priceInDollars avgPriceValue = Finite mp ep"
    with assms(3) have "0 < mp" by simp
    moreover from f assms(4) have "fdiv (Finite mv ev) (Finite mp ep) = Finite m e" by simp
    ultimately show "\<bar>number_value m e - number_value mv ev / number_value mp ep\<bar> \<le> 2 powi (e - 1)"
      by (simp only: fdiv_close)
  qed
  ultimately show ?thesis using hundredths_close [of m e] by simp
qed

lemma outcome_two_decimals_example:
  "calcOutcome (''50'' @ [cent]) ''$100'' = ''200.00''
   \<and> two_decimals (calcOutcome (''50'' @ [cent]) ''$100'')
   \<and> gt_zero (priceInDollars (''50'' @ [cent]))
   \<and> fdiv (valueNum ''$100'') (priceInDollars (''50'' @ [cent])) = Finite 7036874417766400 (- 45)
   \<and> \<not> ge_1e21 7036874417766400 (- 45)
   \<and> calcOutcome (''45'' @ [cent]) ''$5,423'' = ''12051.11''"
proof -
  have a: "''50'' @ [cent] \<noteq> []" and b: "''$100'' \<noteq> []" by simp_all
  have g: "gt_zero (priceInDollars (''50'' @ [cent]))" unfolding priceInDollars_50 by simp
  have q: "fdiv (valueNum ''$100'') (priceInDollars (''50'' @ [cent])) = Finite 7036874417766400 (- 45)"
    by (simp only: valueNum_100 priceInDollars_50 quotient_200)
  have s: "\<not> ge_1e21 7036874417766400 (- 45)" by (simp add: ge_1e21_def)
  have h: "hundredths 7036874417766400 (- 45) = 20000" by (simp add: hundredths_def)
  have f: "fixed2 20000 = ''200.00''" by (simp add: fixed2_def string_eval)
  from outcome_two_decimals [OF a b g q s]
  have "calcOutcome (''50'' @ [cent]) ''$100'' = fixed2 (hundredths 7036874417766400 (- 45))"
    and t: "two_decimals (calcOutcome (''50'' @ [cent]) ''$100'')"
    by blast+
  then have r: "calcOutcome (''50'' @ [cent]) ''$100'' = ''200.00''"
    by (simp only: h f)
  have a': "''45'' @ [cent] \<noteq> []" and b': "''$5,423'' \<noteq> []" by simp_all
  have g': "gt_zero (priceInDollars (''45'' @ [cent]))" unfolding priceInDollars_45 by simp
  have q': "fdiv (valueNum ''$5,423'') (priceInDollars (''45'' @ [cent]))
      = Finite 6625168397143609 (- 39)"
    by (simp only: valueNum_5423 priceInDollars_45 quotient_5423)
  have s': "\<not> ge_1e21 6625168397143609 (- 39)" by (simp add: ge_1e21_def)
  from outcome_two_decimals [OF a' b' g' q' s']
  have "calcOutcome (''45'' @ [cent]) ''$5,423'' = fixed2 (hundredths 6625168397143609 (- 39))"
    by blast
  then have r': "calcOutcome (''45'' @ [cent]) ''$5,423'' = ''12051.11''"
    by (simp only: hundredths_5423 fixed2_1205111)
  from r r' t g q s show ?thesis by blast
qed

text \<open>
  Claim C1 says that the outcome is the value divided by the unit price, formatted to
  exactly two decimal places, whenever the unit price is strictly positive and both numbers
  parse; the comment of line 443 says the same (\<^verbatim>\<open>// Format with 2 decimal places\<close>).
  The code does not keep to it for large quotients. The priced-quantity text "100 cent"
  reads as 100 cents and the monetary-value text "$1000000000000000000000" reads as
  \<open>10 ^ 21\<close>, both exactly, so the unit price is 1 and the guard of line 441 holds;
  \<^verbatim>\<open>toFixed(2)\<close> switches to exponent notation from \<open>10 ^ 21\<close> on, and the outcome is
  "1e+21", which has no decimal places. Below \<open>10 ^ 21\<close> the outcome has exactly two
  decimals (\<open>outcome_two_decimals\<close>), and "50 cent" with "$100" gives "200.00"
  (\<open>calcOutcome_50_100\<close>).
\<close>

theorem outcome_exponent_notation:
  "priceInCents (''100'' @ [cent]) = Finite 7036874417766400 (- 46)
   \<and> number_value 7036874417766400 (- 46) = 100
   \<and> valueNum ''$1000000000000000000000'' = Finite 7629394531250000 17
   \<and> number_value 7629394531250000 17 = 10 ^ 21
   \<and> calcOutcome (''100'' @ [cent]) ''$1000000000000000000000'' = ''1e+21''
   \<and> \<not> two_decimals (calcOutcome (''100'' @ [cent]) ''$1000000000000000000000'')"
proof -
  have p: "priceInCents (''100'' @ [cent]) = Finite 7036874417766400 (- 46)"
    unfolding priceInCents_def exec_100c by (simp add: parseFloat_100)
  have c: "calcOutcome (''100'' @ [cent]) ''$1000000000000000000000'' = ''1e+21''"
    unfolding calcOutcome_def valueNum_1e21 priceInDollars_100 quotient_1e21 toFixed2_1e21
    by simp
  have t: "\<not> two_decimals ''1e+21''"
    by (simp add: two_decimals_def is_digit_def)
  have n1: "number_value 7036874417766400 (- 46) = 100" by (simp add: number_value_def)
  have n2: "number_value 7629394531250000 17 = 10 ^ 21" by (simp add: number_value_def)
  show ?thesis using p n1 n2 c t valueNum_1e21 by (simp only: simp_thms)
qed

lemma calcOutcome_guarded:
  "avgPriceValue = [] \<or> val = [] \<or> \<not> gt_zero (priceInDollars avgPriceValue)
     \<or> isNaN (valueNum val) \<Longrightarrow> calcOutcome avgPriceValue val = []"
  by (auto simp: calcOutcome_def)

lemma calcOutcome_zero_cents: "calcOutcome (''0'' @ [cent]) val = []"
proof -
  have "exec number_items (Some (0, 3)) (''0'' @ [cent]) = Some \<lparr>whole = ''0'', group1 = Some ''0''\<rparr>"
    by code_simp
  then have "priceInDollars (''0'' @ [cent]) = Finite 0 (- 1074)"
    unfolding priceInDollars_def priceInCents_def hundred
    by (simp add: parseFloat_def is_digit_def nat_of_digits_def nearest_double_def)
  then show ?thesis by (simp add: calcOutcome_guarded)
qed

lemma calcOutcome_no_number: "\<forall>c \<in> set avgPriceValue. \<not> is_digit c \<Longrightarrow> calcOutcome avgPriceValue val = []"
proof -
  assume nd: "\<forall>c \<in> set avgPriceValue. \<not> is_digit c"
  have m: "match_here number_items s = None" if "s = [] \<or> \<not> is_digit (hd s)" for s
    using that by (cases s) (auto simp: number_items_def)
  have "search_from number_items s i = None" if "\<forall>c \<in> set s. \<not> is_digit c" for s i
    using that by (induction s arbitrary: i) (simp_all add: m)
  with nd have "exec number_items (Some (0, 3)) avgPriceValue = None"
    by (simp add: exec_def)
  then have "priceInDollars avgPriceValue = Finite 0 (- 1074)"
    unfolding priceInDollars_def priceInCents_def hundred
    by (simp add: nearest_double_def)
  then show ?thesis by (simp add: calcOutcome_guarded)
qed

lemma calcOutcome_value_no_number: "calcOutcome (''50'' @ [cent]) ''n/a'' = ''0.00''"
proof -
  have e: "exec amount_items (Some (0, 3)) ''n/a'' = None" by code_simp
  have v: "valueNum ''n/a'' = Finite 0 (- 1074)"
    unfolding valueNum_def valueStr_def e
    by (simp add: parseFloat_def is_digit_def nat_of_digits_def nearest_double_def)
  have q: "fdiv (Finite 0 (- 1074)) (Finite 4503599627370496 (- 53)) = Finite 0 (- 1074)"
    by (simp add: nearest_double_def)
  have f: "fixed2 0 = ''0.00''" by (simp add: fixed2_def string_eval)
  show ?thesis
    unfolding calcOutcome_def v priceInDollars_50 q
    by (simp add: ge_1e21_def hundredths_def f)
qed

text \<open>
  Claim C2 says that the outcome calculation never emits "NaN" or "Infinity" and leaves the
  outcome empty whenever the result is not finite. The guard of line 441 tests the unit
  price and the value with \<^verbatim>\<open>isNaN\<close> only. A monetary-value text of 310 digits reads as
  infinity, which passes the guard; with the priced-quantity text "50 cent" the quotient is
  infinity and the outcome is the string "Infinity". With a priced-quantity text of 310
  digits as well, the unit price is infinity, the quotient of the two infinities is NaN and
  the outcome is the string "NaN".
\<close>

theorem outcome_Infinity:
  "valueNum (CHR ''$'' # CHR ''1'' # replicate 309 (CHR ''0'')) = Infinity
   \<and> \<not> isNaN (valueNum (CHR ''$'' # CHR ''1'' # replicate 309 (CHR ''0'')))
   \<and> calcOutcome (''50'' @ [cent]) (CHR ''$'' # CHR ''1'' # replicate 309 (CHR ''0'')) = ''Infinity''
   \<and> calcOutcome (CHR ''1'' # replicate 309 (CHR ''0'') @ [cent])
         (CHR ''$'' # CHR ''1'' # replicate 309 (CHR ''0'')) = ''NaN''"
  by (simp only: valueNum_overflow calcOutcome_overflow calcOutcome_NaN isNaN.simps simp_thms)

section \<open>Field extraction: proofs\<close>

lemma startsWith_http:
  "startsWith (resolve_marketUrl link) ''http'' \<or> resolve_marketUrl link = []"
  by (auto simp: resolve_marketUrl_def startsWith_def Let_def split: option.splits)

lemma extract_position_url:
  assumes "extract_position link container = Some pos"
  shows "marketUrl pos \<noteq> [] \<and> startsWith (marketUrl pos) ''http''"
  using assms startsWith_http [of link]
  by (auto simp: extract_position_def Let_def split: if_splits)

lemma extract_position_fields:
  assumes "extract_position link container = Some pos"
  shows "avgPrice pos = extract_avgPriceValue container \<and> value pos = extract_value container
       \<and> outcome pos = calcOutcome (extract_avgPriceValue container) (extract_value container)"
  using assms by (auto simp: extract_position_def Let_def split: if_splits)

lemma overflow_container_avgPrice:
  "extract_avgPriceValue
     (Element ''DIV''
        [Element ''A'' [Text ''Will X?''],
         Text (''avg 50'' @ [cent] @ '' '' @ CHR ''$'' # CHR ''1'' # replicate 309 (CHR ''0''))])
     = ''50'' @ [cent]"
  by code_simp

lemma overflow_container_value:
  "extract_value
     (Element ''DIV''
        [Element ''A'' [Text ''Will X?''],
         Text (''avg 50'' @ [cent] @ '' '' @ CHR ''$'' # CHR ''1'' # replicate 309 (CHR ''0''))])
     = CHR ''$'' # CHR ''1'' # replicate 309 (CHR ''0'')"
  by code_simp

lemma overflow_link:
  "resolve_marketUrl \<lparr>innerText = ''Will X?'', linkText = ''Will X?'',
      href = ''https://polymarket.com/event/x'', hrefAttribute = Some ''/event/x''\<rparr>
     = ''https://polymarket.com/event/x''
   \<and> trim ''Will X?'' = ''Will X?''"
  by code_simp

lemma guarded_price_strategies_keep:
  "v \<noteq> [] \<Longrightarrow> price_strategy3 containerText v = v \<and> price_strategy4 early v = v"
  by (simp add: price_strategy3_def price_strategy4_def)

lemma guarded_value_strategy_keeps:
  "v \<noteq> [] \<Longrightarrow> value_strategy2 containerText v = v"
  by (simp add: value_strategy2_def)

lemma price_elements_not_guarded:
  "price_elements els v = v \<or> price_elements els v \<in> (\<lambda>(text, parentText).
      case exec cents_re (Some (0, 3)) text of Some m \<Rightarrow> whole m | None \<Rightarrow> []) ` set els"
  by (induction els v rule: price_elements.induct) (auto split: option.splits)

text \<open>
  Claim C5 says that in both cascades the first strategy that produces a result decides the
  field and no later strategy replaces it. For the priced quantity the code does not keep
  to it: the element scan of lines 314-332 runs whether or not the table-cell scan has set
  \<^verbatim>\<open>avgPriceValue\<close> (only the strategies after it are guarded by \<^verbatim>\<open>!avgPriceValue\<close>, see
  \<open>guarded_price_strategies_keep\<close>), and
  it judges an element by its own text together with the text of its parent. In the table
  row with the cells "Will X?", "20 cent", "avg 45 cent" and "$900" the cell scan finds
  "45 cent" in the cell that says avg, and the element scan then replaces it with
  "20 cent", the first cell with a price, because the text of the row holds "avg 45 cent".
\<close>

theorem element_scan_replaces_cell_scan:
  "price_strategy0
     (Element ''TR''
        [Element ''TD'' [Element ''A'' [Text ''Will X?'']],
         Element ''TD'' [Text (''20'' @ [cent])],
         Element ''TD'' [Text (''avg 45'' @ [cent])],
         Element ''TD'' [Text ''$900'']])
     = ''45'' @ [cent]
   \<and> extract_avgPriceValue
     (Element ''TR''
        [Element ''TD'' [Element ''A'' [Text ''Will X?'']],
         Element ''TD'' [Text (''20'' @ [cent])],
         Element ''TD'' [Text (''avg 45'' @ [cent])],
         Element ''TD'' [Text ''$900'']])
     = ''20'' @ [cent]"
  by code_simp

text \<open>
  Claim C6 says that every emitted record has a non-empty absolute URL and an outcome that
  is a numeral with exactly two decimals or empty. Of the URL part,
  \<open>extract_position_url\<close> shows that a record is emitted only with a URL that is not
  empty and starts with http, other hrefs being put behind the site origin. The outcome part
  fails with the defect of claim C2: for a container whose text is "avg 50 cent" and a
  dollar amount of 310 digits the script emits a record whose outcome is "Infinity".
\<close>

theorem emitted_outcome_Infinity:
  "extract_position
     \<lparr>innerText = ''Will X?'', linkText = ''Will X?'',
      href = ''https://polymarket.com/event/x'', hrefAttribute = Some ''/event/x''\<rparr>
     (Element ''DIV''
        [Element ''A'' [Text ''Will X?''],
         Text (''avg 50'' @ [cent] @ '' '' @ CHR ''$'' # CHR ''1'' # replicate 309 (CHR ''0''))])
     = Some \<lparr>marketName = ''Will X?'', marketUrl = ''https://polymarket.com/event/x'',
              outcome = ''Infinity'', avgPrice = ''50'' @ [cent],
              value = CHR ''$'' # CHR ''1'' # replicate 309 (CHR ''0'')\<rparr>
   \<and> page_script
     [(\<lparr>innerText = ''Will X?'', linkText = ''Will X?'',
        href = ''https://polymarket.com/event/x'', hrefAttribute = Some ''/event/x''\<rparr>,
       Some (Element ''DIV''
        [Element ''A'' [Text ''Will X?''],
         Text (''avg 50'' @ [cent] @ '' '' @ CHR ''$'' # CHR ''1'' # replicate 309 (CHR ''0''))]))]
     = [\<lparr>marketName = ''Will X?'', marketUrl = ''https://polymarket.com/event/x'',
              outcome = ''Infinity'', avgPrice = ''50'' @ [cent],
              value = CHR ''$'' # CHR ''1'' # replicate 309 (CHR ''0'')\<rparr>]
   \<and> \<not> two_decimals ''Infinity'' \<and> ''Infinity'' \<noteq> []"
proof -
  let ?link = "\<lparr>innerText = ''Will X?'', linkText = ''Will X?'',
      href = ''https://polymarket.com/event/x'', hrefAttribute = Some ''/event/x''\<rparr>"
  let ?c = "Element ''DIV''
        [Element ''A'' [Text ''Will X?''],
         Text (''avg 50'' @ [cent] @ '' '' @ CHR ''$'' # CHR ''1'' # replicate 309 (CHR ''0''))]"
  let ?pos = "\<lparr>marketName = ''Will X?'', marketUrl = ''https://polymarket.com/event/x'',
              outcome = ''Infinity'', avgPrice = ''50'' @ [cent],
              value = CHR ''$'' # CHR ''1'' # replicate 309 (CHR ''0'')\<rparr>"
  have t: "\<not> two_decimals ''Infinity''" by (simp add: two_decimals_def is_digit_def)
  have e: "extract_position ?link ?c = Some ?pos"
    unfolding extract_position_def Let_def overflow_container_avgPrice overflow_container_value
      calcOutcome_overflow
    using overflow_link by simp
  have "page_script [(?link, Some ?c)] = dedup [?pos]"
    unfolding page_script_def by (simp only: List.map_filter_simps prod.case option.case e)
  then have p: "page_script [(?link, Some ?c)] = [?pos]"
    by (simp add: dedup_def)
  from e p t show ?thesis by (simp only: simp_thms) simp
qed

section \<open>The format of the extracted texts: proofs\<close>



















































section \<open>The records of the response: proofs\<close>





text \<open>
  The two texts are not always as neat as in the example: a row whose cell reads
  "avg 45 \<cent>" with a blank before the cent sign gives the priced quantity with the
  blank, a container whose text holds "$," gives this as the monetary value, and a
  container without a price and without an amount gives a record with two empty texts.
\<close>

lemma loose_texts:
  "extract_avgPriceValue (Element ''TR'' [Element ''TD'' [Text (''avg 45 '' @ [cent])]])
     = ''45 '' @ [cent]
   \<and> cents_text (''45 '' @ [cent])
   \<and> extract_value (Element ''DIV'' [Text ''Total: $, pending'']) = ''$,''
   \<and> dollar_text ''$,''
   \<and> extract_position \<lparr>innerText = ''Will X happen?'', linkText = ''Will X happen?'',
      href = ''https://polymarket.com/event/x'', hrefAttribute = Some ''/event/x''\<rparr>
         (Element ''DIV'' [Element ''A'' [Text ''Will X happen?'']])
       = Some \<lparr>marketName = ''Will X happen?'', marketUrl = ''https://polymarket.com/event/x'',
                outcome = [], avgPrice = [], value = []\<rparr>"
  by code_simp




end
